theory Spec2Isabelle
  imports Complex_Main "HOL-Library.Multiset" "HOL-Library.Log_Nat"
begin


section \<open>JavaScript numbers\<close>

text \<open>
  A JavaScript number is an IEEE 754 double: a finite value, an infinity, or NaN. A
  finite double is carried by its real value, and every arithmetic operation rounds
  its exact result to the nearest double, ties to the even mantissa, with 53 bits of
  mantissa, exponents from \<open>-1022\<close> and gradual underflow, and overflow to an infinity.
  The sign of zero is not modelled: it shows only in a division by zero, and the
  divisors of this program are the dimensions of the video, which are not negative,
  and \<open>endTime - startTime\<close> in the full export, where \<open>startTime\<close> is 0 and
  \<open>endTime\<close> is not zero.
\<close>

datatype number = Fin real | PosInf | NegInf | NaN

text \<open>Rounding to an integer, ties to even.\<close>

definition roundEven :: "real \<Rightarrow> int" where
  "roundEven y =
     (let f = \<lfloor>y\<rfloor>; d = y - of_int f
      in if d < 1 / 2 then f else if 1 / 2 < d then f + 1 else if even f then f else f + 1)"

text \<open>
  The binary exponent of a real: \<open>2 powi expo x \<le> \<bar>x\<bar> < 2 powi (expo x + 1)\<close>, and
  \<open>-1022\<close> below that range.
\<close>

definition expo :: "real \<Rightarrow> int" where
  "expo x =
     (let a = \<bar>x\<bar>
      in if 1 \<le> a then bitlen \<lfloor>a\<rfloor> - 1
         else if a = 0 then - 1022
         else max (- 1022) (- bitlen (\<lceil>1 / a\<rceil> - 1)))"

text \<open>The spacing of the doubles around a real, and the nearest double.\<close>

definition ulp :: "real \<Rightarrow> real" where
  "ulp x = 2 powi (expo x - 52)"

definition fl :: "real \<Rightarrow> real" where
  "fl x = sgn x * (ulp x * of_int (roundEven (\<bar>x\<bar> / ulp x)))"

definition isDouble :: "real \<Rightarrow> bool" where
  "isDouble x \<longleftrightarrow> fl x = x \<and> \<bar>x\<bar> < 2 ^ 1024"

text \<open>A number is well formed when its finite value is a double.\<close>

definition isNumber :: "number \<Rightarrow> bool" where
  "isNumber n = (case n of Fin x \<Rightarrow> isDouble x | _ \<Rightarrow> True)"

text \<open>The result of an operation whose exact value is \<open>x\<close>; also a numeric literal.\<close>

definition rnd :: "real \<Rightarrow> number" where
  "rnd x =
     (let r = fl x
      in if 2 ^ 1024 \<le> r then PosInf else if r \<le> - (2 ^ 1024) then NegInf else Fin r)"

fun dneg :: "number \<Rightarrow> number" where
  "dneg (Fin x) = Fin (- x)"
| "dneg PosInf = NegInf"
| "dneg NegInf = PosInf"
| "dneg NaN = NaN"

fun dadd :: "number \<Rightarrow> number \<Rightarrow> number" where
  "dadd (Fin x) (Fin y) = rnd (x + y)"
| "dadd NaN b = NaN"
| "dadd a NaN = NaN"
| "dadd PosInf NegInf = NaN"
| "dadd NegInf PosInf = NaN"
| "dadd PosInf b = PosInf"
| "dadd a PosInf = PosInf"
| "dadd NegInf b = NegInf"
| "dadd a NegInf = NegInf"

definition dsub :: "number \<Rightarrow> number \<Rightarrow> number" where
  "dsub a b = dadd a (dneg b)"

fun dmul :: "number \<Rightarrow> number \<Rightarrow> number" where
  "dmul (Fin x) (Fin y) = rnd (x * y)"
| "dmul NaN b = NaN"
| "dmul a NaN = NaN"
| "dmul (Fin x) b = (if x = 0 then NaN else if 0 < x then b else dneg b)"
| "dmul a (Fin y) = (if y = 0 then NaN else if 0 < y then a else dneg a)"
| "dmul PosInf b = b"
| "dmul NegInf b = dneg b"

fun ddiv :: "number \<Rightarrow> number \<Rightarrow> number" where
  "ddiv (Fin x) (Fin y) =
     (if y = 0 then (if x = 0 then NaN else if 0 < x then PosInf else NegInf)
      else rnd (x / y))"
| "ddiv NaN b = NaN"
| "ddiv a NaN = NaN"
| "ddiv (Fin x) b = Fin 0"
| "ddiv a (Fin y) = (if 0 \<le> y then a else dneg a)"
| "ddiv a b = NaN"

text \<open>The comparisons \<open><\<close> and \<open><=\<close>; \<open>></\<close> and \<open>>=\<close> are their converses. NaN compares false.\<close>

fun dlt :: "number \<Rightarrow> number \<Rightarrow> bool" where
  "dlt (Fin x) (Fin y) = (x < y)"
| "dlt NaN b = False"
| "dlt a NaN = False"
| "dlt a NegInf = False"
| "dlt NegInf b = True"
| "dlt PosInf b = False"
| "dlt a PosInf = True"

fun dle :: "number \<Rightarrow> number \<Rightarrow> bool" where
  "dle (Fin x) (Fin y) = (x \<le> y)"
| "dle NaN b = False"
| "dle a NaN = False"
| "dle NegInf b = True"
| "dle a PosInf = True"
| "dle a b = False"

definition dgt :: "number \<Rightarrow> number \<Rightarrow> bool" where
  "dgt a b = dlt b a"

definition dge :: "number \<Rightarrow> number \<Rightarrow> bool" where
  "dge a b = dle b a"

text \<open>\<open>Math.abs\<close>, \<open>Math.floor\<close>, \<open>Math.max\<close>, \<open>Math.min\<close>, and the truth value of a number.\<close>

fun dabs :: "number \<Rightarrow> number" where
  "dabs (Fin x) = Fin \<bar>x\<bar>"
| "dabs NaN = NaN"
| "dabs a = PosInf"

fun dfloor :: "number \<Rightarrow> number" where
  "dfloor (Fin x) = Fin (of_int \<lfloor>x\<rfloor>)"
| "dfloor a = a"

definition dmax :: "number \<Rightarrow> number \<Rightarrow> number" where
  "dmax a b = (if a = NaN \<or> b = NaN then NaN else if dlt a b then b else a)"

definition dmin :: "number \<Rightarrow> number \<Rightarrow> number" where
  "dmin a b = (if a = NaN \<or> b = NaN then NaN else if dlt b a then b else a)"

definition truthy :: "number \<Rightarrow> bool" where
  "truthy n \<longleftrightarrow> n \<noteq> NaN \<and> n \<noteq> Fin 0"


section \<open>JavaScript strings\<close>

text \<open>
  A string is its list of UTF-16 code units; \<open>codeUnits\<close> gives the string of an ASCII
  literal.
\<close>

type_synonym jsString = "nat list"

definition codeUnits :: "string \<Rightarrow> jsString" where
  "codeUnits s = map of_char s"


section \<open>Data model (src/types.ts)\<close>

text \<open>
  The field names of the source are kept, with a suffix where a name is an Isabelle
  keyword or a HOL constant (\<open>id\<close>, \<open>text\<close>, \<open>type\<close>, \<open>x\<close>, \<open>y\<close>) and a prefix on the
  fields of \<open>Subtitle\<close>, whose names coincide with those of \<open>TimelineEvent\<close>. An
  optional property is an \<open>option\<close>.
\<close>

datatype EventType = Caption | Zoom | Highlight

record Details =
  x_pct :: "number option"
  y_pct :: "number option"
  zoomScale :: "number option"

record TimelineEvent =
  id_ev :: string
  startTime :: number
  endTime :: number
  text_ev :: jsString
  type_ev :: EventType
  details :: "Details option"

record Subtitle =
  sub_startTime :: number
  sub_endTime :: number
  sub_text :: jsString


section \<open>Timeline sanitization (src/services/geminiService.ts, analyzeVideoAndGenerateTimeline)\<close>

text \<open>
  The callback of \<open>timeline.map\<close>: an event shorter than two seconds has its end moved
  to two seconds after its start.
\<close>

definition ensureMinDuration :: "TimelineEvent \<Rightarrow> TimelineEvent" where
  "ensureMinDuration t =
     (let end = (if dlt (dsub (endTime t) (startTime t)) (Fin 2) then dadd (startTime t) (Fin 2)
                 else endTime t)
      in t\<lparr>endTime := end\<rparr>)"

text \<open>
  \<open>Array.prototype.sort\<close> with a comparator. The sort of ECMAScript is stable, and for a
  consistent comparator every stable sort returns the same array, so it is modelled
  by insertion from the right: an element goes before the first element it does not
  compare greater than (a comparator result of NaN counts as zero). The comparator of
  this program is consistent unless a start time is NaN, which no number of a parsed
  JSON text is; for such a list ECMAScript leaves the order to the engine, and the
  model takes that of the insertion.
\<close>

fun insertBy :: "('a \<Rightarrow> 'a \<Rightarrow> number) \<Rightarrow> 'a \<Rightarrow> 'a list \<Rightarrow> 'a list" where
  "insertBy cmp a [] = [a]"
| "insertBy cmp a (b # bs) =
     (if dgt (cmp a b) (Fin 0) then b # insertBy cmp a bs else a # b # bs)"

definition sortBy :: "('a \<Rightarrow> 'a \<Rightarrow> number) \<Rightarrow> 'a list \<Rightarrow> 'a list" where
  "sortBy cmp xs = foldr (insertBy cmp) xs []"

text \<open>The comparator \<open>(a, b) => a.startTime - b.startTime\<close>.\<close>

definition byStartTime :: "TimelineEvent \<Rightarrow> TimelineEvent \<Rightarrow> number" where
  "byStartTime a b = dsub (startTime a) (startTime b)"

definition sanitizeTimeline :: "TimelineEvent list \<Rightarrow> TimelineEvent list" where
  "sanitizeTimeline raw = sortBy byStartTime (map ensureMinDuration raw)"

text \<open>A sort key that the comparator orders: a double or an infinity, not NaN.\<close>

definition goodKey :: "number \<Rightarrow> bool" where
  "goodKey n \<longleftrightarrow> isNumber n \<and> n \<noteq> NaN"


section \<open>Live preview (src/components/Editor.tsx)\<close>

text \<open>
  The \<open>Array.prototype.find\<close> queries of the \<open>timeupdate\<close> handler: the first element
  of the list that satisfies the predicate, or nothing.
\<close>

definition activeEvent :: "TimelineEvent list \<Rightarrow> number \<Rightarrow> TimelineEvent option" where
  "activeEvent events time = find (\<lambda>e. dge time (startTime e) \<and> dle time (endTime e)) events"

definition activeSubtitle :: "Subtitle list \<Rightarrow> number \<Rightarrow> Subtitle option" where
  "activeSubtitle subs time =
     find (\<lambda>s. dge time (sub_startTime s) \<and> dle time (sub_endTime s)) subs"

definition activeZoom :: "TimelineEvent list \<Rightarrow> number \<Rightarrow> TimelineEvent option" where
  "activeZoom events time =
     find (\<lambda>e. type_ev e = Zoom \<and> dge time (startTime e) \<and> dle time (endTime e)) events"

text \<open>The query of the export compositor (\<open>evt\<close> in \<open>drawFrame\<close>).\<close>

definition exportCaption :: "TimelineEvent list \<Rightarrow> number \<Rightarrow> TimelineEvent option" where
  "exportCaption events t =
     find (\<lambda>e. dge t (startTime e) \<and> dle t (endTime e) \<and> type_ev e = Caption) events"

text \<open>The narration \<open>audio\<close> element, as far as the component reads or writes it.\<close>

record AudioElement =
  aud_currentTime :: number
  aud_paused :: bool
  aud_playbackRate :: number

datatype TransformOrigin = CenterCenter | Percent number number

record ZoomStyle =
  transformOrigin :: TransformOrigin
  transformScale :: number
  transition :: string

text \<open>
  A narration blob; \<open>decodable\<close> says whether \<open>decodeAudioData\<close> resolves on its bytes.
\<close>

record AudioBlob =
  decodable :: bool

text \<open>
  What a canvas 2D context is asked to draw, and the recorded video: the encoded bytes
  are abstracted to the recorder's configuration, the narration track (present when
  mixed in, with the offset it starts from) and the frames drawn on the canvas.
\<close>

datatype DrawOp =
    FillRect string number number number number
  | DrawImage number number number number
  | FillRoundRect string number number number number number
  | FillText string string jsString number number
  | StrokeText string number string jsString number number

record VideoBlob =
  blob_type :: string
  recorder_mimeType :: string
  videoBitsPerSecond :: nat
  narrationOffset :: "number option"
  canvasFrames :: "DrawOp list list"

text \<open>Props and state of the \<open>Editor\<close> component.\<close>

record Editor =
  timeline :: "TimelineEvent list"
  subtitles :: "Subtitle list"
  audioBlob :: "AudioBlob option"
  aud :: "AudioElement option"
  currentTime :: number
  duration :: number
  currentCaption :: "TimelineEvent option"
  currentSubtitle :: "Subtitle option"
  zoomStyle :: ZoomStyle
  isPlaying :: bool
  isVoiceoverEnabled :: bool
  isExporting :: bool
  exportProgress :: number
  showExportMenu :: bool
  generatedGifs :: "(jsString \<times> VideoBlob) list"

text \<open>
  The \<open>timeupdate\<close> handler, called with \<open>vid.currentTime\<close>: nothing while exporting;
  otherwise the audio sync, the active event, the active subtitle and the zoom style.
  The literal \<open>0.3\<close> is the double nearest to three tenths.
\<close>

definition syncAudio :: "number \<Rightarrow> Editor \<Rightarrow> Editor" where
  "syncAudio time s =
     (case aud s of
        None \<Rightarrow> s
      | Some a \<Rightarrow>
          if isVoiceoverEnabled s \<and> \<not> aud_paused a \<and>
             dgt (dabs (dsub (aud_currentTime a) time)) (rnd (3 / 10))
          then s\<lparr>aud := Some (a\<lparr>aud_currentTime := time\<rparr>)\<rparr>
          else s)"

definition zoomStyleAt :: "TimelineEvent list \<Rightarrow> number \<Rightarrow> ZoomStyle" where
  "zoomStyleAt events time =
     (let reset = \<lparr>transformOrigin = CenterCenter, transformScale = Fin 1,
                   transition = ''transform 1s ease-out''\<rparr>
      in case activeZoom events time of
           None \<Rightarrow> reset
         | Some z \<Rightarrow>
             (case details z of
                None \<Rightarrow> reset
              | Some d \<Rightarrow>
                  \<lparr>transformOrigin =
                     Percent (case x_pct d of None \<Rightarrow> Fin 50 | Some v \<Rightarrow> v)
                             (case y_pct d of None \<Rightarrow> Fin 50 | Some v \<Rightarrow> v),
                   transformScale = (case zoomScale d of None \<Rightarrow> Fin (3 / 2) | Some v \<Rightarrow> v),
                   transition = ''transform 1.5s cubic-bezier(0.4, 0, 0.2, 1)''\<rparr>))"

definition handleTimeUpdate :: "number \<Rightarrow> Editor \<Rightarrow> Editor" where
  "handleTimeUpdate time s =
     (if isExporting s then s
      else
        let s1 = s\<lparr>currentTime := time\<rparr>;
            s2 = syncAudio time s1;
            s3 = s2\<lparr>currentCaption := activeEvent (timeline s2) time\<rparr>;
            s4 = s3\<lparr>currentSubtitle := activeSubtitle (subtitles s3) time\<rparr>
        in s4\<lparr>zoomStyle := zoomStyleAt (timeline s4) time\<rparr>)"



section \<open>Export (src/components/Editor.tsx, renderToVideo)\<close>

datatype Format = Landscape | Portrait

text \<open>
  What the browser decides during an export: whether the metadata of the offline video
  ever loads, the size of its frames, whether the canvas gives a 2D context, the width
  of a measured text, which recorder MIME types are supported, whether \<open>play()\<close>
  resolves, and what the offline video, sought to a position and played, shows to the
  successive calls of \<open>drawFrame\<close>: its current position and its \<open>ended\<close> flag.
\<close>

record Browser =
  metadataLoads :: bool
  videoWidth :: number
  videoHeight :: number
  has2dContext :: bool
  measureTextWidth :: "jsString \<Rightarrow> number"
  mimeTypeSupported :: "string \<Rightarrow> bool"
  playResolves :: bool
  playFrom :: "number \<Rightarrow> (number \<times> bool) list"

definition canvasWidth :: "Format \<Rightarrow> number" where
  "canvasWidth format = (if format = Landscape then Fin 1280 else Fin 720)"

definition canvasHeight :: "Format \<Rightarrow> number" where
  "canvasHeight format = (if format = Landscape then Fin 720 else Fin 1280)"

definition captionOps :: "Browser \<Rightarrow> Format \<Rightarrow> TimelineEvent option \<Rightarrow> DrawOp list" where
  "captionOps br format evt =
     (case evt of
        None \<Rightarrow> []
      | Some e \<Rightarrow>
          let width = canvasWidth format;
              pad = Fin 20;
              boxW = dadd (measureTextWidth br (text_ev e)) (dmul pad (Fin 2));
              boxH = Fin 50;
              boxX = ddiv (dsub width boxW) (Fin 2);
              boxY = (if format = Portrait then Fin 150 else Fin 60)
          in [FillRoundRect ''rgba(79, 70, 229, 0.95)'' boxX boxY boxW boxH (Fin 25),
              FillText ''white'' ''bold 30px sans-serif'' (text_ev e) (ddiv width (Fin 2))
                (dadd boxY (ddiv boxH (Fin 2)))])"

definition subtitleOps :: "Format \<Rightarrow> Subtitle option \<Rightarrow> DrawOp list" where
  "subtitleOps format sub =
     (case sub of
        None \<Rightarrow> []
      | Some s \<Rightarrow>
          let width = canvasWidth format;
              yPos = dsub (canvasHeight format) (if format = Portrait then Fin 100 else Fin 50)
          in [StrokeText ''black'' (Fin 4) ''500 28px sans-serif'' (sub_text s)
                (ddiv width (Fin 2)) yPos,
              FillText ''white'' ''500 28px sans-serif'' (sub_text s) (ddiv width (Fin 2)) yPos])"

text \<open>
  What \<open>drawFrame\<close> draws on the canvas for the position \<open>t\<close>: the black background,
  the video frame scaled and centred, the caption box of the first active caption
  event, and outside GIF mode the first active subtitle.
\<close>

definition frameOps :: "Editor \<Rightarrow> Browser \<Rightarrow> Format \<Rightarrow> bool \<Rightarrow> number \<Rightarrow> DrawOp list" where
  "frameOps ed br format isGifMode t =
     (let width = canvasWidth format;
          height = canvasHeight format;
          vidW = videoWidth br;
          vidH = videoHeight br;
          scale = dmax (ddiv width vidW) (ddiv height vidH);
          scaledW = dmul vidW scale;
          scaledH = dmul vidH scale;
          dx = ddiv (dsub width scaledW) (Fin 2);
          dy = ddiv (dsub height scaledH) (Fin 2)
      in [FillRect ''#000'' (Fin 0) (Fin 0) width height, DrawImage dx dy scaledW scaledH]
         @ captionOps br format (exportCaption (timeline ed) t)
         @ (if \<not> isGifMode then subtitleOps format (activeSubtitle (subtitles ed) t) else []))"

text \<open>The value passed to \<open>setExportProgress\<close>.\<close>

definition progressPercent :: "number \<Rightarrow> number \<Rightarrow> number \<Rightarrow> number" where
  "progressPercent cur startT endT =
     dfloor (dmul (ddiv (dsub cur startT) (dsub endT startT)) (Fin 100))"

text \<open>
  One call of \<open>drawFrame\<close>, on what it reads from the offline video: the current
  position and the \<open>ended\<close> flag. It either stops the recorder, or draws a frame (when
  the canvas gave a context) and, outside GIF mode, reports the progress.
\<close>

datatype FrameStep = Stop | Drawn "DrawOp list" "number option"

definition drawFrame ::
  "Editor \<Rightarrow> Browser \<Rightarrow> number \<Rightarrow> number \<Rightarrow> Format \<Rightarrow> bool \<Rightarrow> number \<times> bool \<Rightarrow> FrameStep" where
  "drawFrame ed br startT endT format isGifMode obs =
     (case obs of (cur, ended) \<Rightarrow>
        if dge cur endT \<or> ended then Stop
        else
          Drawn (if has2dContext br then frameOps ed br format isGifMode cur else [])
            (if \<not> isGifMode then Some (progressPercent cur startT endT) else None))"

text \<open>
  The render loop over the successive observations of the offline video, one per
  callback: the frames drawn, the progress values reported, and whether the recorder
  was stopped. When the observations end before a stop, the recorder never stops.
\<close>

fun renderLoop ::
  "(number \<times> bool \<Rightarrow> FrameStep) \<Rightarrow> (number \<times> bool) list
     \<Rightarrow> DrawOp list list \<times> number list \<times> bool" where
  "renderLoop step [] = ([], [], False)"
| "renderLoop step (obs # rest) =
     (case step obs of
        Stop \<Rightarrow> ([], [], True)
      | Drawn ops p \<Rightarrow>
          (case renderLoop step rest of
             (fs, ps, stopped) \<Rightarrow>
               (ops # fs, (case p of None \<Rightarrow> ps | Some v \<Rightarrow> v # ps), stopped)))"

text \<open>
  The promise of \<open>renderToVideo\<close> resolves only from \<open>recorder.onstop\<close>. Its executor
  is an async function with no handler around its awaits and calls: when one of them
  throws or never settles, \<open>resolve\<close> is never called and the promise stays pending.
\<close>

datatype Stall =
    MetadataNeverLoaded
  | AudioDecodeRejected
  | AudioStartRejected
  | RecorderNotSupported
  | SeekRejected
  | PlayRejected
  | RecorderNeverStopped

datatype 'a Promise = Resolved 'a | Unsettled Stall

record RenderRun =
  outcome :: "VideoBlob Promise"
  progressUpdates :: "number list"

text \<open>
  The steps of \<open>renderToVideo\<close> in the order of the source: the metadata, the audio
  setup, the recorder, the seek to \<open>startTime\<close> and \<open>play()\<close>, the render loop.
  Two of the calls throw on their argument alone: \<open>source.start(0, startTime)\<close> for an
  offset that is negative or not finite, and the assignment to \<open>currentTime\<close> for a
  position that is not finite.
\<close>

definition isFinite :: "number \<Rightarrow> bool" where
  "isFinite n = (case n of Fin x \<Rightarrow> True | _ \<Rightarrow> False)"

definition renderToVideo ::
  "Editor \<Rightarrow> Browser \<Rightarrow> number \<Rightarrow> number \<Rightarrow> Format \<Rightarrow> bool \<Rightarrow> RenderRun" where
  "renderToVideo ed br startT endT format isGifMode =
     (if \<not> metadataLoads br then \<lparr>outcome = Unsettled MetadataNeverLoaded, progressUpdates = []\<rparr>
      else
        let narration = (if \<not> isGifMode \<and> isVoiceoverEnabled ed then audioBlob ed else None);
            decodeRejects = (case narration of None \<Rightarrow> False | Some b \<Rightarrow> \<not> decodable b);
            startRejects = (case narration of None \<Rightarrow> False
                            | Some b \<Rightarrow> \<not> (isFinite startT \<and> dge startT (Fin 0)))
        in if decodeRejects
           then \<lparr>outcome = Unsettled AudioDecodeRejected, progressUpdates = []\<rparr>
           else if startRejects
           then \<lparr>outcome = Unsettled AudioStartRejected, progressUpdates = []\<rparr>
           else if \<not> mimeTypeSupported br ''video/webm;codecs=vp9''
           then \<lparr>outcome = Unsettled RecorderNotSupported, progressUpdates = []\<rparr>
           else if \<not> isFinite startT
           then \<lparr>outcome = Unsettled SeekRejected, progressUpdates = []\<rparr>
           else if \<not> playResolves br
           then \<lparr>outcome = Unsettled PlayRejected, progressUpdates = []\<rparr>
           else
             (case renderLoop (drawFrame ed br startT endT format isGifMode)
                     (playFrom br startT) of
                (fs, ps, stopped) \<Rightarrow>
                  \<lparr>outcome =
                     (if stopped
                      then Resolved
                        \<lparr>blob_type = ''video/webm'',
                         recorder_mimeType = ''video/webm;codecs=vp9'',
                         videoBitsPerSecond = (if isGifMode then 2500000 else 5000000),
                         narrationOffset = map_option (\<lambda>b. startT) narration,
                         canvasFrames = fs\<rparr>
                      else Unsettled RecorderNeverStopped),
                   progressUpdates = ps\<rparr>))"

text \<open>
  The full export. The result holds the component's state afterwards, whether the
  handler ran to its end, the file offered for download, and every value passed to
  \<open>setExportProgress\<close>, in order.
\<close>

record ExportResult =
  editor :: Editor
  settled :: bool
  download :: "(string \<times> VideoBlob) option"
  progressTrace :: "number list"

definition formatName :: "Format \<Rightarrow> string" where
  "formatName format = (if format = Landscape then ''landscape'' else ''portrait'')"

definition handleExportVideo :: "Browser \<Rightarrow> Format \<Rightarrow> Editor \<Rightarrow> ExportResult" where
  "handleExportVideo br format s =
     (let s0 = s\<lparr>isExporting := True, showExportMenu := False, isPlaying := False,
                 aud := map_option (\<lambda>a. a\<lparr>aud_paused := True\<rparr>) (aud s)\<rparr>;
          run = renderToVideo s0 br (Fin 0) (if truthy (duration s0) then duration s0 else Fin 30)
                  format False;
          s1 = s0\<lparr>exportProgress := last (exportProgress s0 # progressUpdates run)\<rparr>
      in case outcome run of
           Unsettled r \<Rightarrow>
             \<lparr>editor = s1, settled = False, download = None,
              progressTrace = progressUpdates run\<rparr>
         | Resolved blob \<Rightarrow>
             \<lparr>editor = s1\<lparr>isExporting := False, exportProgress := Fin 0\<rparr>, settled = True,
              download = Some (''demo-export-'' @ formatName format @ ''.webm'', blob),
              progressTrace = progressUpdates run @ [Fin 0]\<rparr>)"


section \<open>Highlight clips (src/components/Editor.tsx, handleGenerateMagicGifs)\<close>

text \<open>
  \<open>text.replace(/\s+/g, '-')\<close>: every maximal run of white space becomes one hyphen.
  The class \<open>\s\<close> of ECMAScript is the white space and the line terminators: TAB, LF,
  VT, FF, CR, SP, NBSP, U+1680, U+2000 to U+200A, U+2028, U+2029, U+202F, U+205F,
  U+3000 and U+FEFF.
\<close>

definition isWhitespace :: "nat \<Rightarrow> bool" where
  "isWhitespace c \<longleftrightarrow>
     c \<in> set [0x09, 0x0A, 0x0B, 0x0C, 0x0D, 0x20, 0xA0, 0x1680, 0x2028, 0x2029, 0x202F,
              0x205F, 0x3000, 0xFEFF] \<or> (0x2000 \<le> c \<and> c \<le> 0x200A)"

function replaceWhitespaceRuns :: "jsString \<Rightarrow> jsString" where
  "replaceWhitespaceRuns [] = []"
| "replaceWhitespaceRuns (c # cs) =
     (if isWhitespace c then 0x2D # replaceWhitespaceRuns (dropWhile isWhitespace cs)
      else c # replaceWhitespaceRuns cs)"
  by pat_completeness auto
termination
  by (relation "measure length") (auto simp add: length_dropWhile_le less_Suc_eq_le)

definition gifName :: "TimelineEvent \<Rightarrow> jsString" where
  "gifName evt = codeUnits ''GIF-'' @ replaceWhitespaceRuns (text_ev evt) @ codeUnits ''.webm''"

text \<open>\<open>timeline.filter(t => t.type !== 'zoom').slice(0, 3)\<close>\<close>

definition pickEvents :: "TimelineEvent list \<Rightarrow> TimelineEvent list" where
  "pickEvents events = take 3 (filter (\<lambda>t. type_ev t \<noteq> Zoom) events)"

text \<open>
  The loop over the picked events, each rendered in turn in GIF mode over three seconds
  from its start, cut at the duration of the video. A call that never settles leaves
  the loop waiting.
\<close>

fun renderClips ::
  "Editor \<Rightarrow> Browser \<Rightarrow> TimelineEvent list \<Rightarrow> (jsString \<times> VideoBlob) list Promise" where
  "renderClips ed br [] = Resolved []"
| "renderClips ed br (evt # rest) =
     (let start = startTime evt;
          end = dmin (dadd (startTime evt) (Fin 3)) (duration ed)
      in case outcome (renderToVideo ed br start end Landscape True) of
           Unsettled r \<Rightarrow> Unsettled r
         | Resolved blob \<Rightarrow>
             (case renderClips ed br rest of
                Unsettled r \<Rightarrow> Unsettled r
              | Resolved gifs \<Rightarrow> Resolved ((gifName evt, blob) # gifs)))"

text \<open>The handler: the state afterwards; \<open>isExporting\<close> stays set when a render never settles.\<close>

definition handleGenerateMagicGifs :: "Browser \<Rightarrow> Editor \<Rightarrow> Editor" where
  "handleGenerateMagicGifs br s =
     (let s0 = s\<lparr>isExporting := True, showExportMenu := False, isPlaying := False,
                 generatedGifs := []\<rparr>
      in case renderClips s0 br (pickEvents (timeline s0)) of
           Unsettled r \<Rightarrow> s0
         | Resolved newGifs \<Rightarrow> s0\<lparr>generatedGifs := newGifs, isExporting := False\<rparr>)"


section \<open>The screen recorder (src/components/ShotList.tsx, startRecording)\<close>

text \<open>
  The recorder of the screen capture picks its MIME type from a list, by
  \<open>mimeTypes.find(type => MediaRecorder.isTypeSupported(type)) || 'video/webm'\<close>; the
  recorder of the simulation (\<open>startSimulation\<close>) takes VP9 when it is supported and
  WebM otherwise.
\<close>

definition mimeTypes :: "string list" where
  "mimeTypes = [''video/webm;codecs=vp9'', ''video/webm'', ''video/mp4'']"

definition selectedType :: "(string \<Rightarrow> bool) \<Rightarrow> string" where
  "selectedType isTypeSupported =
     (case find isTypeSupported mimeTypes of Some t \<Rightarrow> t | None \<Rightarrow> ''video/webm'')"

definition simulationMimeType :: "(string \<Rightarrow> bool) \<Rightarrow> string" where
  "simulationMimeType isTypeSupported =
     (if isTypeSupported ''video/webm;codecs=vp9'' then ''video/webm;codecs=vp9''
      else ''video/webm'')"


section \<open>The specification's formulas, and the frames of a run\<close>


text \<open>
  Encoder selection as the specification words it: the first codec of a
  preference-ordered list that is available, failing only when none is.
\<close>

definition spec_selectEncoder :: "string list \<Rightarrow> (string \<Rightarrow> bool) \<Rightarrow> string option" where
  "spec_selectEncoder preferences available = find available preferences"

text \<open>The fit-cover scale as the specification words it: \<open>max(outW/srcW, outH/srcH)\<close>.\<close>

definition spec_coverScale :: "number \<Rightarrow> number \<Rightarrow> number \<Rightarrow> number \<Rightarrow> number" where
  "spec_coverScale outW outH srcW srcH = dmax (ddiv outW srcW) (ddiv outH srcH)"

text \<open>The observations at which the render loop composites a frame: those before the first stop.\<close>

definition composited :: "number \<Rightarrow> (number \<times> bool) list \<Rightarrow> (number \<times> bool) list" where
  "composited endT observations =
     takeWhile (\<lambda>obs. \<not> (dge (fst obs) endT \<or> snd obs)) observations"



section \<open>Concrete inputs\<close>

text \<open>
  A timeline with a zoom listed first and overlapping captions, two overlapping
  subtitles, an editor over them with the narration half a second ahead of the video,
  and browsers: one that records VP9, with a video of 1920 by 1080; the same with a
  video of 1232 by 693; one that records WebM but not VP9; one whose video is 100
  seconds long and shows the positions 29, 57 and 58. Then a raw timeline whose events
  start at the doubles nearest to 0.3 and 0.4 and at \<open>2^54\<close>, an editor whose narration
  is at the double nearest to 0.32, one whose narration does not decode, one whose
  timeline holds the zoom only, and one over the video of 100 seconds.
\<close>

definition exampleTimeline :: "TimelineEvent list" where
  "exampleTimeline =
     [\<lparr>id_ev = ''z1'', startTime = Fin 0, endTime = Fin 5, text_ev = codeUnits ''Focus'',
        type_ev = Zoom,
        details = Some \<lparr>x_pct = Some (Fin 30), y_pct = None, zoomScale = Some (Fin 2)\<rparr>\<rparr>,
      \<lparr>id_ev = ''c1'', startTime = Fin 0, endTime = Fin 3, text_ev = codeUnits ''Hi there'',
        type_ev = Caption, details = None\<rparr>,
      \<lparr>id_ev = ''c2'', startTime = Fin 1, endTime = Fin 4, text_ev = codeUnits ''Sign in'',
        type_ev = Caption, details = None\<rparr>,
      \<lparr>id_ev = ''h1'', startTime = Fin 5, endTime = Fin 8,
        text_ev = codeUnits ''Save'' @ [0xA0, 0x20] @ codeUnits ''now'',
        type_ev = Highlight, details = None\<rparr>,
      \<lparr>id_ev = ''c3'', startTime = Fin 6, endTime = Fin 8, text_ev = codeUnits ''Done'',
        type_ev = Caption, details = None\<rparr>]"

definition exampleSubtitles :: "Subtitle list" where
  "exampleSubtitles =
     [\<lparr>sub_startTime = Fin 0, sub_endTime = Fin 3, sub_text = codeUnits ''Welcome''\<rparr>,
      \<lparr>sub_startTime = Fin 2, sub_endTime = Fin 5, sub_text = codeUnits ''to the demo''\<rparr>]"

definition exampleEditor :: Editor where
  "exampleEditor =
     \<lparr>timeline = exampleTimeline, subtitles = exampleSubtitles,
      audioBlob = Some \<lparr>decodable = True\<rparr>,
      aud = Some \<lparr>aud_currentTime = Fin (5 / 2), aud_paused = False, aud_playbackRate = Fin 1\<rparr>,
      currentTime = Fin 0, duration = Fin 7, currentCaption = None, currentSubtitle = None,
      zoomStyle = \<lparr>transformOrigin = CenterCenter, transformScale = Fin 1,
                   transition = ''transform 1s ease-in-out''\<rparr>,
      isPlaying = True, isVoiceoverEnabled = True, isExporting = False,
      exportProgress = Fin 0, showExportMenu = True, generatedGifs = []\<rparr>"

definition examplePlayback :: "number \<Rightarrow> (number \<times> bool) list" where
  "examplePlayback p =
     (if p = Fin 0 then [(Fin 0, False), (Fin 1, False), (Fin 2, False), (Fin 3, False),
                         (Fin 4, True)]
      else if p = Fin 1 then [(Fin 1, False), (Fin (5 / 2), False), (Fin 4, False)]
      else if p = Fin 5 then [(Fin 5, False), (Fin 6, False), (Fin 7, True)]
      else [(p, True)])"

definition exampleBrowser :: Browser where
  "exampleBrowser =
     \<lparr>metadataLoads = True, videoWidth = Fin 1920, videoHeight = Fin 1080,
      has2dContext = True,
      measureTextWidth = (\<lambda>t. Fin (15 * real (length t))),
      mimeTypeSupported = (\<lambda>m. m = ''video/webm;codecs=vp9''),
      playResolves = True, playFrom = examplePlayback\<rparr>"

definition smallVideoBrowser :: Browser where
  "smallVideoBrowser = exampleBrowser\<lparr>videoWidth := Fin 1232, videoHeight := Fin 693\<rparr>"

definition webmOnlyBrowser :: Browser where
  "webmOnlyBrowser = exampleBrowser\<lparr>mimeTypeSupported := (\<lambda>m. m = ''video/webm'')\<rparr>"


definition rawTimeline :: "TimelineEvent list" where
  "rawTimeline =
     [\<lparr>id_ev = ''a'', startTime = rnd (3 / 10), endTime = Fin 1, text_ev = codeUnits ''Open'',
        type_ev = Caption, details = None\<rparr>,
      \<lparr>id_ev = ''b'', startTime = Fin 0, endTime = Fin 1, text_ev = codeUnits ''Hi'',
        type_ev = Caption, details = None\<rparr>,
      \<lparr>id_ev = ''c'', startTime = rnd (2 / 5), endTime = rnd (12 / 5),
        text_ev = codeUnits ''Look'', type_ev = Zoom, details = None\<rparr>,
      \<lparr>id_ev = ''d'', startTime = Fin (2 ^ 54), endTime = Fin (2 ^ 54),
        text_ev = codeUnits ''Late'', type_ev = Highlight, details = None\<rparr>]"

definition driftEditor :: Editor where
  "driftEditor =
     exampleEditor\<lparr>aud := Some \<lparr>aud_currentTime = rnd (8 / 25), aud_paused = False,
                                  aud_playbackRate = Fin 1\<rparr>\<rparr>"

definition undecodableEditor :: Editor where
  "undecodableEditor = exampleEditor\<lparr>audioBlob := Some \<lparr>decodable = False\<rparr>\<rparr>"

definition zoomOnlyEditor :: Editor where
  "zoomOnlyEditor = exampleEditor\<lparr>timeline := [exampleTimeline ! 0]\<rparr>"



section \<open>Properties of rounding\<close>

lemma roundEven_of_int: "roundEven (of_int n) = n"
  by (simp add: roundEven_def)

lemma roundEven_bounds: "\<lfloor>y\<rfloor> \<le> roundEven y \<and> roundEven y \<le> \<lfloor>y\<rfloor> + 1"
  by (simp add: roundEven_def Let_def)

lemma roundEven_mono:
  assumes "y \<le> z"
  shows "roundEven y \<le> roundEven z"
proof (cases "\<lfloor>y\<rfloor> = \<lfloor>z\<rfloor>")
  case True
  then show ?thesis using assms by (auto simp add: roundEven_def Let_def)
next
  case False
  then have "\<lfloor>y\<rfloor> < \<lfloor>z\<rfloor>" using assms floor_mono [of y z] by linarith
  then show ?thesis using roundEven_bounds [of y] roundEven_bounds [of z] by linarith
qed

lemma roundEven_error: "\<bar>of_int (roundEven y) - y\<bar> \<le> 1 / 2"
proof -
  have "of_int \<lfloor>y\<rfloor> \<le> y" "y < of_int \<lfloor>y\<rfloor> + 1" by linarith+
  then show ?thesis by (auto simp add: roundEven_def Let_def abs_le_iff)
qed

lemma roundEven_nonneg: "0 \<le> y \<Longrightarrow> 0 \<le> roundEven y"
  using roundEven_mono [of 0 y] roundEven_of_int [of 0] by simp

lemma p2_neg: "0 \<le> k \<Longrightarrow> 1 / (2::real) ^ nat k = 2 powi (- k)"
  by (simp add: power_int_minus_divide power_int_nonneg_exp)

lemma expo_ge: "- 1022 \<le> expo x"
proof -
  have "0 \<le> bitlen \<lfloor>\<bar>x\<bar>\<rfloor> - 1" if "1 \<le> \<bar>x\<bar>"
  proof -
    from that have "0 < \<lfloor>\<bar>x\<bar>\<rfloor>" by linarith
    then show ?thesis using bitlen_bounds [of "\<lfloor>\<bar>x\<bar>\<rfloor>"] bitlen_nonneg [of "\<lfloor>\<bar>x\<bar>\<rfloor>"]
      by (smt (verit) bitlen_eq_zero_iff)
  qed
  then show ?thesis by (auto simp add: expo_def Let_def)
qed

lemma expo_big:
  assumes "1 \<le> \<bar>x\<bar>"
  shows "0 \<le> expo x \<and> 2 powi (expo x) \<le> \<bar>x\<bar> \<and> \<bar>x\<bar> < 2 powi (expo x + 1)"
proof -
  let ?n = "\<lfloor>\<bar>x\<bar>\<rfloor>"
  have n: "0 < ?n" using assms by linarith
  have e: "expo x = bitlen ?n - 1" using assms by (simp add: expo_def)
  have b1: "1 \<le> bitlen ?n" using n bitlen_eq_zero_iff [of ?n] bitlen_nonneg [of ?n] by linarith
  from bitlen_bounds [OF n] have lo: "2 ^ nat (bitlen ?n - 1) \<le> ?n" and hi: "?n < 2 ^ nat (bitlen ?n)"
    by blast+
  have "(2::real) powi (expo x) = 2 ^ nat (bitlen ?n - 1)"
    using b1 e by (simp add: power_int_nonneg_exp)
  also have "\<dots> = of_int (2 ^ nat (bitlen ?n - 1))" by simp
  also have "\<dots> \<le> of_int ?n" using lo by (simp only: of_int_le_iff)
  also have "\<dots> \<le> \<bar>x\<bar>" by linarith
  finally have L: "2 powi (expo x) \<le> \<bar>x\<bar>" .
  have "?n + 1 \<le> 2 ^ nat (bitlen ?n)" using hi by linarith
  then have "of_int (?n + 1) \<le> (of_int (2 ^ nat (bitlen ?n)) :: real)" by (simp only: of_int_le_iff)
  then have h1: "of_int ?n + 1 \<le> (2::real) ^ nat (bitlen ?n)" by simp
  have "\<bar>x\<bar> < of_int ?n + 1" by linarith
  with h1 have "\<bar>x\<bar> < (2::real) ^ nat (bitlen ?n)" by linarith
  moreover have "(2::real) powi (expo x + 1) = 2 ^ nat (bitlen ?n)"
    using b1 e by (simp add: power_int_nonneg_exp)
  ultimately have U: "\<bar>x\<bar> < 2 powi (expo x + 1)" by simp
  from b1 e L U show ?thesis by simp
qed

lemma expo_small:
  assumes "0 < \<bar>x\<bar>" and "\<bar>x\<bar> < 1"
  shows "\<bar>x\<bar> < 2 powi (expo x + 1) \<and> (- 1022 < expo x \<longrightarrow> 2 powi (expo x) \<le> \<bar>x\<bar>)"
proof -
  let ?a = "\<bar>x\<bar>"
  let ?n = "\<lceil>1 / ?a\<rceil>"
  let ?k = "bitlen (?n - 1)"
  have y: "1 < 1 / ?a" using assms by simp
  then have n: "0 < ?n - 1" by linarith
  have e: "expo x = max (- 1022) (- ?k)" using assms by (simp add: expo_def)
  have k1: "1 \<le> ?k" using n bitlen_eq_zero_iff [of "?n - 1"] bitlen_nonneg [of "?n - 1"] by linarith
  from bitlen_bounds [OF n] have lo: "2 ^ nat (?k - 1) \<le> ?n - 1" and hi: "?n - 1 < 2 ^ nat ?k"
    by blast+
  have "of_int (?n - 1) < 1 / ?a" by linarith
  moreover have "(2::real) ^ nat (?k - 1) \<le> of_int (?n - 1)"
    using lo by (metis of_int_le_iff of_int_numeral of_int_power)
  ultimately have "(2::real) ^ nat (?k - 1) < 1 / ?a" by linarith
  then have "?a * 2 ^ nat (?k - 1) < 1" using assms(1) by (simp add: field_simps)
  then have "?a < 1 / 2 ^ nat (?k - 1)" by (simp add: field_simps)
  also have "1 / (2::real) ^ nat (?k - 1) = 2 powi (- ?k + 1)"
    using k1 p2_neg [of "?k - 1"] by simp
  finally have U0: "?a < 2 powi (- ?k + 1)" .
  have "- ?k + 1 \<le> expo x + 1" using e by simp
  then have "(2::real) powi (- ?k + 1) \<le> 2 powi (expo x + 1)"
    by (intro power_int_increasing) auto
  with U0 have U: "?a < 2 powi (expo x + 1)" by linarith
  have "?n \<le> 2 ^ nat ?k" using hi by linarith
  then have "of_int ?n \<le> (2::real) ^ nat ?k"
    by (metis of_int_le_iff of_int_numeral of_int_power)
  moreover have "1 / ?a \<le> of_int ?n" by linarith
  ultimately have "1 / ?a \<le> (2::real) ^ nat ?k" by linarith
  then have "1 \<le> ?a * 2 ^ nat ?k" using assms(1) by (simp add: field_simps)
  then have "1 / 2 ^ nat ?k \<le> ?a" by (simp add: field_simps)
  moreover have "1 / (2::real) ^ nat ?k = 2 powi (- ?k)"
    using k1 p2_neg [of ?k] by simp
  ultimately have L0: "2 powi (- ?k) \<le> ?a" by simp
  have L: "- 1022 < expo x \<longrightarrow> 2 powi (expo x) \<le> ?a"
  proof
    assume "- 1022 < expo x"
    then have "expo x = - ?k" using e by linarith
    with L0 show "2 powi (expo x) \<le> ?a" by simp
  qed
  from U L show ?thesis by blast
qed

lemma expo_upper: "\<bar>x\<bar> < 2 powi (expo x + 1)"
proof (cases "1 \<le> \<bar>x\<bar>")
  case True
  then show ?thesis using expo_big by blast
next
  case False
  show ?thesis
  proof (cases "x = 0")
    case True
    then show ?thesis by (simp add: expo_def)
  next
    case nz: False
    then show ?thesis using False expo_small [of x] by simp
  qed
qed

lemma expo_lower: "- 1022 < expo x \<Longrightarrow> 2 powi (expo x) \<le> \<bar>x\<bar>"
proof (cases "1 \<le> \<bar>x\<bar>")
  case True
  then show ?thesis using expo_big by blast
next
  case False
  assume a: "- 1022 < expo x"
  show ?thesis
  proof (cases "x = 0")
    case True
    then show ?thesis using a by (simp add: expo_def)
  next
    case nz: False
    then show ?thesis using False a expo_small [of x] by simp
  qed
qed

lemma expo_eqI:
  assumes "2 powi k \<le> \<bar>x\<bar>" and "\<bar>x\<bar> < 2 powi (k + 1)" and "- 1022 \<le> k"
  shows "expo x = k"
proof (rule antisym)
  show "expo x \<le> k"
  proof (rule ccontr)
    assume "\<not> expo x \<le> k"
    then have gt: "k + 1 \<le> expo x" by simp
    then have "- 1022 < expo x" using assms(3) by simp
    then have "2 powi (expo x) \<le> \<bar>x\<bar>" by (rule expo_lower)
    moreover have "(2::real) powi (k + 1) \<le> 2 powi (expo x)"
      using gt by (intro power_int_increasing) auto
    ultimately show False using assms(2) by linarith
  qed
  show "k \<le> expo x"
  proof (rule ccontr)
    assume "\<not> k \<le> expo x"
    then have "expo x + 1 \<le> k" by simp
    then have "(2::real) powi (expo x + 1) \<le> 2 powi k"
      by (intro power_int_increasing) auto
    with expo_upper [of x] assms(1) show False by linarith
  qed
qed

lemma expo_subnormal:
  assumes "\<bar>x\<bar> < 2 powi (- 1021)"
  shows "expo x = - 1022"
proof (rule ccontr)
  assume "expo x \<noteq> - 1022"
  with expo_ge [of x] have gt: "- 1022 < expo x" by simp
  then have "2 powi (expo x) \<le> \<bar>x\<bar>" by (rule expo_lower)
  moreover have "(2::real) powi (- 1021) \<le> 2 powi (expo x)"
    using gt by (intro power_int_increasing) auto
  ultimately show False using assms by linarith
qed

lemma expo_mono:
  assumes "\<bar>x\<bar> \<le> \<bar>y\<bar>"
  shows "expo x \<le> expo y"
proof (rule ccontr)
  assume "\<not> expo x \<le> expo y"
  then have gt: "expo y + 1 \<le> expo x" by simp
  then have "- 1022 < expo x" using expo_ge [of y] by linarith
  then have "2 powi (expo x) \<le> \<bar>x\<bar>" by (rule expo_lower)
  moreover have "(2::real) powi (expo y + 1) \<le> 2 powi (expo x)"
    using gt by (intro power_int_increasing) auto
  ultimately show False using expo_upper [of y] assms by linarith
qed

lemma expo_minus: "expo (- x) = expo x"
  by (simp add: expo_def)

lemma expo_abs: "expo \<bar>x\<bar> = expo x"
  by (simp add: expo_def)

lemma ulp_pos: "0 < ulp x"
  by (simp add: ulp_def)

lemma ulp_minus: "ulp (- x) = ulp x"
  by (simp add: ulp_def expo_minus)

lemma p2_add: "(2::real) powi (a + b) = 2 powi a * 2 powi b"
  by (rule power_int_add) simp

lemma ulp_times_2_53: "ulp x * 2 ^ 53 = 2 powi (expo x + 1)"
proof -
  have "expo x + 1 = (expo x - 52) + 53" by simp
  then have "(2::real) powi (expo x + 1) = 2 powi ((expo x - 52) + 53)" by (simp only:)
  also have "\<dots> = 2 powi (expo x - 52) * 2 powi 53" by (rule p2_add)
  also have "(2::real) powi 53 = 2 ^ 53" by (rule power_int_numeral)
  finally show ?thesis by (simp only: ulp_def)
qed

lemma ulp_times_2_52: "ulp x * 2 ^ 52 = 2 powi (expo x)"
proof -
  have "expo x = (expo x - 52) + 52" by simp
  then have "(2::real) powi (expo x) = 2 powi ((expo x - 52) + 52)" by (simp only:)
  also have "\<dots> = 2 powi (expo x - 52) * 2 powi 52" by (rule p2_add)
  also have "(2::real) powi 52 = 2 ^ 52" by (rule power_int_numeral)
  finally show ?thesis by (simp only: ulp_def)
qed

lemma fl_0: "fl 0 = 0"
  by (simp add: fl_def)

lemma fl_minus: "fl (- x) = - fl x"
  by (simp add: fl_def ulp_minus sgn_minus)

lemma fl_pos: "0 < x \<Longrightarrow> fl x = ulp x * of_int (roundEven (x / ulp x))"
  by (simp add: fl_def)

lemma fl_nonneg: "0 \<le> x \<Longrightarrow> 0 \<le> fl x"
proof (cases "x = 0")
  case True
  then show ?thesis by (simp add: fl_0)
next
  case False
  assume "0 \<le> x"
  with False have x: "0 < x" by simp
  have "0 \<le> x / ulp x" using x ulp_pos [of x] by simp
  then have "0 \<le> roundEven (x / ulp x)" by (rule roundEven_nonneg)
  then show ?thesis using ulp_pos [of x] by (simp add: fl_pos [OF x])
qed

lemma scaled_upper: "\<bar>x\<bar> / ulp x < 2 ^ 53"
proof -
  have "\<bar>x\<bar> < ulp x * 2 ^ 53" using expo_upper [of x] by (simp only: ulp_times_2_53)
  then have "\<bar>x\<bar> < 2 ^ 53 * ulp x" by (simp only: mult.commute)
  then show ?thesis using ulp_pos [of x] by (simp only: pos_divide_less_eq)
qed

lemma scaled_lower: "- 1022 < expo x \<Longrightarrow> 2 ^ 52 \<le> \<bar>x\<bar> / ulp x"
proof -
  assume "- 1022 < expo x"
  then have "2 powi (expo x) \<le> \<bar>x\<bar>" by (rule expo_lower)
  then have "ulp x * 2 ^ 52 \<le> \<bar>x\<bar>" by (simp only: ulp_times_2_52)
  then have "2 ^ 52 * ulp x \<le> \<bar>x\<bar>" by (simp only: mult.commute)
  then show ?thesis using ulp_pos [of x] by (simp only: pos_le_divide_eq)
qed

lemma fl_upper:
  assumes "0 < x"
  shows "fl x \<le> 2 powi (expo x + 1)"
proof -
  have "x / ulp x \<le> 2 ^ 53" using scaled_upper [of x] assms by simp
  then have "roundEven (x / ulp x) \<le> roundEven (2 ^ 53)" by (rule roundEven_mono)
  also have "roundEven (2 ^ 53) = 2 ^ 53" using roundEven_of_int [of "2 ^ 53"] by simp
  finally have "of_int (roundEven (x / ulp x)) \<le> (2::real) ^ 53"
    by (metis of_int_le_iff of_int_numeral of_int_power)
  then have "ulp x * of_int (roundEven (x / ulp x)) \<le> ulp x * 2 ^ 53"
    using ulp_pos [of x] by (intro mult_left_mono) simp_all
  then show ?thesis by (simp only: fl_pos [OF assms] ulp_times_2_53)
qed

lemma fl_lower:
  assumes "0 < x" and "- 1022 < expo x"
  shows "2 powi (expo x) \<le> fl x"
proof -
  have "2 ^ 52 \<le> x / ulp x" using scaled_lower [OF assms(2)] assms(1) by simp
  then have "roundEven (2 ^ 52) \<le> roundEven (x / ulp x)" by (rule roundEven_mono)
  moreover have "roundEven (2 ^ 52) = 2 ^ 52" using roundEven_of_int [of "2 ^ 52"] by simp
  ultimately have "(2::real) ^ 52 \<le> of_int (roundEven (x / ulp x))"
    by (metis of_int_le_iff of_int_numeral of_int_power)
  then have "ulp x * 2 ^ 52 \<le> ulp x * of_int (roundEven (x / ulp x))"
    using ulp_pos [of x] by (intro mult_left_mono) simp_all
  then show ?thesis by (simp only: fl_pos [OF assms(1)] ulp_times_2_52)
qed

lemma fl_mono_pos:
  assumes "0 < x" and "x \<le> y"
  shows "fl x \<le> fl y"
proof -
  have y: "0 < y" using assms by simp
  have le: "expo x \<le> expo y" using assms by (intro expo_mono) simp
  show ?thesis
  proof (cases "expo x = expo y")
    case True
    then have u: "ulp x = ulp y" by (simp add: ulp_def)
    have "x / ulp y \<le> y / ulp y" using assms(2) ulp_pos [of y] by (simp add: divide_right_mono)
    then have "roundEven (x / ulp y) \<le> roundEven (y / ulp y)" by (rule roundEven_mono)
    then have "ulp y * of_int (roundEven (x / ulp y)) \<le> ulp y * of_int (roundEven (y / ulp y))"
      using ulp_pos [of y] by (simp add: mult_left_mono)
    then show ?thesis by (simp add: fl_pos [OF assms(1)] fl_pos [OF y] u)
  next
    case False
    with le have lt: "expo x + 1 \<le> expo y" by simp
    then have "- 1022 < expo y" using expo_ge [of x] by linarith
    then have "2 powi (expo y) \<le> fl y" using y by (intro fl_lower)
    moreover have "(2::real) powi (expo x + 1) \<le> 2 powi (expo y)"
      using lt by (intro power_int_increasing) auto
    ultimately show ?thesis using fl_upper [OF assms(1)] by linarith
  qed
qed

lemma fl_mono:
  assumes "x \<le> y"
  shows "fl x \<le> fl y"
proof -
  consider "0 < x" | "x \<le> 0" "0 \<le> y" | "y < 0" by linarith
  then show ?thesis
  proof cases
    case 1
    then show ?thesis using assms by (rule fl_mono_pos)
  next
    case 2
    have "fl x = - fl (- x)" by (simp add: fl_minus)
    moreover have "0 \<le> fl (- x)" using 2(1) by (intro fl_nonneg) simp
    moreover have "0 \<le> fl y" using 2(2) by (rule fl_nonneg)
    ultimately show ?thesis by linarith
  next
    case 3
    then have "fl (- y) \<le> fl (- x)" using assms by (intro fl_mono_pos) simp_all
    then show ?thesis by (simp add: fl_minus)
  qed
qed

lemma fl_error: "\<bar>fl x - x\<bar> \<le> ulp x / 2"
proof -
  have pos: "\<bar>fl y - y\<bar> \<le> ulp y / 2" if "0 < y" for y
  proof -
    have "fl y - y = ulp y * (of_int (roundEven (y / ulp y)) - y / ulp y)"
      using ulp_pos [of y] by (simp add: fl_pos [OF that] right_diff_distrib)
    then have "\<bar>fl y - y\<bar> = ulp y * \<bar>of_int (roundEven (y / ulp y)) - y / ulp y\<bar>"
      using ulp_pos [of y] by (simp add: abs_mult)
    also have "\<dots> \<le> ulp y * (1 / 2)"
      using roundEven_error [of "y / ulp y"] ulp_pos [of y] by (intro mult_left_mono) auto
    finally show ?thesis by simp
  qed
  consider "0 < x" | "x = 0" | "x < 0" by linarith
  then show ?thesis
  proof cases
    case 1
    then show ?thesis by (rule pos)
  next
    case 2
    then show ?thesis using ulp_pos [of 0] by (simp add: fl_0)
  next
    case 3
    then have "\<bar>fl (- x) - (- x)\<bar> \<le> ulp (- x) / 2" by (intro pos) simp
    then show ?thesis by (simp add: fl_minus ulp_minus abs_if split: if_splits)
  qed
qed

lemma fl_rel_error:
  assumes "2 powi (- 1022) \<le> \<bar>x\<bar>"
  shows "\<bar>fl x - x\<bar> \<le> \<bar>x\<bar> * 2 powi (- 53)"
proof -
  have lo: "2 powi (expo x) \<le> \<bar>x\<bar>"
  proof (cases "- 1022 < expo x")
    case True
    then show ?thesis by (rule expo_lower)
  next
    case False
    with expo_ge [of x] have "expo x = - 1022" by simp
    then show ?thesis using assms by simp
  qed
  have "ulp x / 2 = 2 powi (expo x) * 2 powi (- 53)"
  proof -
    have "(2::real) powi (expo x - 52) = 2 powi (expo x + (- 52))" by simp
    also have "\<dots> = 2 powi (expo x) * 2 powi (- 52)" by (rule power_int_add) simp
    finally have "ulp x = 2 powi (expo x) * 2 powi (- 52)" by (simp add: ulp_def)
    moreover have "(2::real) powi (- 52) / 2 = 2 powi (- 53)" by simp
    ultimately show ?thesis by simp
  qed
  also have "\<dots> \<le> \<bar>x\<bar> * 2 powi (- 53)"
    using lo by (intro mult_right_mono) auto
  finally show ?thesis using fl_error [of x] by linarith
qed

lemma fl_exact:
  assumes "\<bar>x\<bar> / ulp x = of_int n"
  shows "fl x = x"
proof -
  have "ulp x * of_int (roundEven (\<bar>x\<bar> / ulp x)) = ulp x * (\<bar>x\<bar> / ulp x)"
    by (simp add: assms roundEven_of_int)
  also have "\<dots> = \<bar>x\<bar>" using ulp_pos [of x] by simp
  finally have "ulp x * of_int (roundEven (\<bar>x\<bar> / ulp x)) = \<bar>x\<bar>" .
  then show ?thesis by (simp only: fl_def sgn_mult_abs)
qed

lemma isDouble_grid:
  assumes "isDouble x"
  shows "\<exists>n::int. x = of_int n * 2 powi (- 1074)"
proof -
  let ?m = "roundEven (\<bar>x\<bar> / ulp x)"
  have e: "0 \<le> expo x + 1022" using expo_ge [of x] by simp
  have "expo x - 52 = (expo x + 1022) + (- 1074)" by simp
  then have "ulp x = 2 powi ((expo x + 1022) + (- 1074))" by (simp only: ulp_def)
  also have "\<dots> = 2 powi (expo x + 1022) * 2 powi (- 1074)" by (rule p2_add)
  also have "(2::real) powi (expo x + 1022) = 2 ^ nat (expo x + 1022)"
    using e by (rule power_int_nonneg_exp)
  finally have u: "ulp x = of_int (2 ^ nat (expo x + 1022)) * 2 powi (- 1074)" by simp
  have "x = fl x" using assms by (simp add: isDouble_def)
  then have "x = sgn x * (ulp x * of_int ?m)" by (simp only: fl_def)
  moreover obtain s :: int where "sgn x = of_int s"
    by (cases "x = 0"; cases "0 < x") (auto simp add: sgn_if intro: that [of 1] that [of 0] that [of "- 1"])
  ultimately have "x = of_int (s * 2 ^ nat (expo x + 1022) * ?m) * 2 powi (- 1074)"
    by (simp only: u of_int_mult mult_ac)
  then show ?thesis by blast
qed

lemma fl_min_subnormal: "fl (2 powi (- 1074)) = 2 powi (- 1074)"
proof -
  let ?x = "(2::real) powi (- 1074)"
  have "?x < 2 powi (- 1021)" by (intro power_int_strict_increasing) simp_all
  moreover have "0 < ?x" by simp
  ultimately have "\<bar>?x\<bar> < 2 powi (- 1021)" by (simp only: abs_of_pos)
  then have e: "expo ?x = - 1022" by (rule expo_subnormal)
  then have u: "ulp ?x = ?x" by (simp add: ulp_def)
  have "\<bar>?x\<bar> / ulp ?x = of_int 1" by (simp only: u) simp
  then show ?thesis by (rule fl_exact)
qed

lemma fl_sub_pos:
  assumes "isDouble x" and "isDouble y" and "y < x"
  shows "0 < fl (x - y)"
proof -
  obtain n m :: int where x: "x = of_int n * 2 powi (- 1074)" and y: "y = of_int m * 2 powi (- 1074)"
    using isDouble_grid [OF assms(1)] isDouble_grid [OF assms(2)] by blast
  have p: "(0::real) < 2 powi (- 1074)" by simp
  have "of_int m * 2 powi (- 1074) < of_int n * (2::real) powi (- 1074)"
    using assms(3) x y by simp
  then have "(of_int m :: real) < of_int n" using p by (simp only: mult_less_cancel_right_pos)
  then have "m + 1 \<le> n" by simp
  then have "(of_int (m + 1) :: real) \<le> of_int n" by (simp only: of_int_le_iff)
  then have "of_int (m + 1) * 2 powi (- 1074) \<le> of_int n * (2::real) powi (- 1074)"
    using p by (intro mult_right_mono) simp_all
  then have "2 powi (- 1074) \<le> x - y" unfolding x y by (simp add: algebra_simps)
  then have "fl (2 powi (- 1074)) \<le> fl (x - y)" by (rule fl_mono)
  then have "2 powi (- 1074) \<le> fl (x - y)" by (simp only: fl_min_subnormal)
  then show ?thesis using p by linarith
qed




text \<open>
  The facts that evaluate the arithmetic on a concrete number.
\<close>

lemmas double_eval = rnd_def fl_def ulp_def expo_def compute_bitlen roundEven_def Let_def


section \<open>Properties of the operations on numbers\<close>


lemma rnd_minus: "rnd (- x) = dneg (rnd x)"
  by (simp add: rnd_def fl_minus Let_def)

lemma dneg_dneg: "dneg (dneg a) = a"
  by (cases a) simp_all

lemma dsub_swap: "dsub b a = dneg (dsub a b)"
proof (cases a; cases b)
  fix x y assume "a = Fin x" "b = Fin y"
  then show ?thesis using rnd_minus [of "x - y"] by (simp add: dsub_def)
qed (simp_all add: dsub_def)

lemma dgt_dneg_false: "dgt v (Fin 0) \<Longrightarrow> \<not> dgt (dneg v) (Fin 0)"
  by (cases v) (simp_all add: dgt_def)

lemma rnd_pos: "0 < fl x \<Longrightarrow> dgt (rnd x) (Fin 0)"
  by (simp add: rnd_def dgt_def Let_def)

lemma rnd_nonpos: "fl x \<le> 0 \<Longrightarrow> \<not> dgt (rnd x) (Fin 0)"
  by (simp add: rnd_def dgt_def Let_def)

lemma dsub_sign:
  assumes "isNumber a" and "isNumber b" and "a \<noteq> NaN" and "b \<noteq> NaN"
  shows "dgt (dsub a b) (Fin 0) \<longleftrightarrow> dlt b a"
proof (cases a; cases b)
  fix x y assume ab: "a = Fin x" "b = Fin y"
  then have dx: "isDouble x" and dy: "isDouble y" using assms by (simp_all add: isNumber_def)
  show ?thesis
  proof (cases "y < x")
    case True
    then have "0 < fl (x - y)" using dx dy by (intro fl_sub_pos)
    then show ?thesis using True ab rnd_pos [of "x - y"] by (simp add: dsub_def)
  next
    case False
    then have "x - y \<le> 0" by simp
    then have "fl (x - y) \<le> fl 0" by (rule fl_mono)
    then have "fl (x - y) \<le> 0" by (simp add: fl_0)
    then show ?thesis using False ab rnd_nonpos [of "x - y"] by (simp add: dsub_def)
  qed
qed (use assms in \<open>simp_all add: dsub_def dgt_def\<close>)

lemma not_dlt_iff_dle: "a \<noteq> NaN \<Longrightarrow> b \<noteq> NaN \<Longrightarrow> \<not> dlt b a \<longleftrightarrow> dle a b"
  by (cases a; cases b) auto

lemma dle_trans: "dle a b \<Longrightarrow> dle b c \<Longrightarrow> dle a c"
  by (cases a; cases b; cases c) auto

lemma dle_refl: "a \<noteq> NaN \<Longrightarrow> dle a a"
  by (cases a) auto

lemma rnd_mono:
  assumes "x \<le> y"
  shows "dle (rnd x) (rnd y)"
proof -
  have "fl x \<le> fl y" using assms by (rule fl_mono)
  then show ?thesis by (auto simp add: rnd_def Let_def)
qed

lemma isDouble_0: "isDouble 0"
  by (simp add: isDouble_def fl_0)



lemma rnd_Fin:
  assumes "- (2 ^ 1024) < fl x" and "fl x < 2 ^ 1024"
  shows "rnd x = Fin (fl x)"
  using assms by (simp add: rnd_def Let_def)


lemma isDouble_less: "isDouble x \<Longrightarrow> \<bar>x\<bar> < 2 ^ 1024"
  by (simp add: isDouble_def)


section \<open>Properties of sanitization\<close>

text \<open>
  The sort keeps the elements, and orders them when the keys are numbers that the
  comparator orders.
\<close>

lemma set_insertBy: "set (insertBy cmp a xs) = insert a (set xs)"
  by (induction xs) auto

lemma mset_insertBy: "mset (insertBy cmp a xs) = add_mset a (mset xs)"
  by (induction xs) auto

lemma mset_sortBy: "mset (sortBy cmp xs) = mset xs"
  by (induction xs) (simp_all add: sortBy_def mset_insertBy)

lemma set_sortBy: "set (sortBy cmp xs) = set xs"
  using mset_sortBy [of cmp xs] by (metis set_mset_mset)

lemma sortBy_Cons: "sortBy cmp (x # xs) = insertBy cmp x (sortBy cmp xs)"
  by (simp add: sortBy_def)

lemma byStartTime_order:
  assumes "goodKey (startTime a)" and "goodKey (startTime b)"
  shows "dgt (byStartTime a b) (Fin 0) \<longleftrightarrow> \<not> dle (startTime a) (startTime b)"
  using assms dsub_sign [of "startTime a" "startTime b"]
    not_dlt_iff_dle [of "startTime a" "startTime b"]
  unfolding byStartTime_def goodKey_def by blast

lemma sorted_insertBy:
  assumes "sorted_wrt (\<lambda>a b. dle (startTime a) (startTime b)) xs"
    and "\<forall>e\<in>set (a # xs). goodKey (startTime e)"
  shows "sorted_wrt (\<lambda>a b. dle (startTime a) (startTime b)) (insertBy byStartTime a xs)"
  using assms
proof (induction xs)
  case Nil
  then show ?case by simp
next
  case (Cons b bs)
  have ga: "goodKey (startTime a)" and gb: "goodKey (startTime b)" using Cons.prems(2) by simp_all
  show ?case
  proof (cases "dgt (byStartTime a b) (Fin 0)")
    case True
    then have nle: "\<not> dle (startTime a) (startTime b)" using byStartTime_order [OF ga gb] by simp
    then have ba: "dle (startTime b) (startTime a)"
      using ga gb not_dlt_iff_dle [of "startTime b" "startTime a"]
        not_dlt_iff_dle [of "startTime a" "startTime b"]
      by (cases "startTime a"; cases "startTime b") (auto simp add: goodKey_def)
    have ih: "sorted_wrt (\<lambda>a b. dle (startTime a) (startTime b)) (insertBy byStartTime a bs)"
      using Cons by simp
    have "\<forall>y\<in>set (insertBy byStartTime a bs). dle (startTime b) (startTime y)"
      using Cons.prems(1) ba by (auto simp add: set_insertBy)
    with ih True show ?thesis by simp
  next
    case False
    then have ab: "dle (startTime a) (startTime b)" using byStartTime_order [OF ga gb] by simp
    have "\<forall>y\<in>set bs. dle (startTime a) (startTime y)"
      using Cons.prems(1) ab dle_trans by auto
    with ab False Cons.prems(1) show ?thesis by simp
  qed
qed

lemma sorted_sortBy:
  assumes "\<forall>e\<in>set xs. goodKey (startTime e)"
  shows "sorted_wrt (\<lambda>a b. dle (startTime a) (startTime b)) (sortBy byStartTime xs)"
  using assms
proof (induction xs)
  case Nil
  then show ?case by (simp add: sortBy_def)
next
  case (Cons x xs)
  have "sorted_wrt (\<lambda>a b. dle (startTime a) (startTime b)) (sortBy byStartTime xs)"
    using Cons by simp
  moreover have "\<forall>e\<in>set (x # sortBy byStartTime xs). goodKey (startTime e)"
    using Cons.prems by (simp add: set_sortBy)
  ultimately show ?case unfolding sortBy_Cons by (rule sorted_insertBy)
qed

text \<open>
  Sorting a list in which no element compares greater than its successor returns it;
  this needs no transitivity, so it holds for every key, NaN included.
\<close>

lemma byStartTime_total:
  "dgt (byStartTime a b) (Fin 0) \<Longrightarrow> \<not> dgt (byStartTime b a) (Fin 0)"
  using dsub_swap [of "startTime b" "startTime a"] dgt_dneg_false [of "byStartTime a b"]
  by (simp add: byStartTime_def)

lemma successively_insertBy:
  assumes "successively (\<lambda>a b. \<not> dgt (byStartTime a b) (Fin 0)) xs"
  shows "successively (\<lambda>a b. \<not> dgt (byStartTime a b) (Fin 0)) (insertBy byStartTime a xs)"
  using assms
proof (induction xs)
  case Nil
  then show ?case by simp
next
  case (Cons b bs)
  show ?case
  proof (cases "dgt (byStartTime a b) (Fin 0)")
    case True
    then have ba: "\<not> dgt (byStartTime b a) (Fin 0)" by (rule byStartTime_total)
    have sbs: "successively (\<lambda>a b. \<not> dgt (byStartTime a b) (Fin 0)) bs"
      using Cons.prems by (cases bs) simp_all
    have ih: "successively (\<lambda>a b. \<not> dgt (byStartTime a b) (Fin 0)) (insertBy byStartTime a bs)"
      using sbs by (rule Cons.IH)
    show ?thesis
    proof (cases bs)
      case Nil
      then show ?thesis using True ba by simp
    next
      case (Cons c cs)
      then show ?thesis using True ba ih \<open>successively _ (b # bs)\<close>
        by auto
    qed
  next
    case False
    then show ?thesis using Cons.prems by (simp add: successively_Cons)
  qed
qed

lemma successively_sortBy:
  "successively (\<lambda>a b. \<not> dgt (byStartTime a b) (Fin 0)) (sortBy byStartTime xs)"
  by (induction xs) (simp_all add: sortBy_Cons successively_insertBy, simp add: sortBy_def)

lemma sortBy_id:
  assumes "successively (\<lambda>a b. \<not> dgt (byStartTime a b) (Fin 0)) xs"
  shows "sortBy byStartTime xs = xs"
  using assms
proof (induction xs)
  case Nil
  then show ?case by (simp add: sortBy_def)
next
  case (Cons x xs)
  have "successively (\<lambda>a b. \<not> dgt (byStartTime a b) (Fin 0)) xs"
    using Cons.prems by (cases xs) simp_all
  then have "sortBy byStartTime xs = xs" by (rule Cons.IH)
  then show ?case using Cons.prems by (cases xs) (simp_all add: sortBy_Cons)
qed

lemma startTime_ensureMinDuration: "startTime (ensureMinDuration t) = startTime t"
  by (simp add: ensureMinDuration_def Let_def)

lemma ensureMinDuration_twice: "ensureMinDuration (ensureMinDuration t) = ensureMinDuration t"
  by (simp add: ensureMinDuration_def Let_def)

lemma map_insertBy_ensureMinDuration:
  "map ensureMinDuration (insertBy byStartTime a xs) =
     insertBy byStartTime (ensureMinDuration a) (map ensureMinDuration xs)"
  by (induction xs) (simp_all add: byStartTime_def startTime_ensureMinDuration)

lemma map_sortBy_ensureMinDuration:
  "map ensureMinDuration (sortBy byStartTime xs) = sortBy byStartTime (map ensureMinDuration xs)"
  by (induction xs) (simp_all add: sortBy_Cons map_insertBy_ensureMinDuration, simp add: sortBy_def)

lemma ensureMinDuration_cases:
  "ensureMinDuration =
     (\<lambda>e. if dlt (dsub (endTime e) (startTime e)) (Fin 2)
          then e\<lparr>endTime := dadd (startTime e) (Fin 2)\<rparr> else e)"
  by (rule ext) (simp add: ensureMinDuration_def Let_def)

lemma sanitize_rawTimeline:
  "sanitizeTimeline rawTimeline =
     [(rawTimeline ! 1)\<lparr>endTime := Fin 2\<rparr>, (rawTimeline ! 0)\<lparr>endTime := rnd (23 / 10)\<rparr>,
      rawTimeline ! 2, rawTimeline ! 3]"
  by (simp add: sanitizeTimeline_def rawTimeline_def sortBy_def ensureMinDuration_def
      byStartTime_def dsub_def dgt_def double_eval)

lemma rawTimeline_keys: "\<forall>e\<in>set rawTimeline. isNumber (startTime e) \<and> startTime e \<noteq> NaN"
  by (simp add: rawTimeline_def isNumber_def isDouble_def double_eval)

text \<open>
  Claim C1. The sanitized timeline consists of the raw events, each one replaced by
  itself with \<open>endTime = startTime + 2.0\<close> (every other field, \<open>startTime\<close> included,
  kept) when its duration \<open>endTime - startTime\<close> is below 2.0 and left as it is
  otherwise, the difference, the comparison and the sum being those of the program, on
  doubles; and it is sorted ascending by \<open>startTime\<close> when every start time is a number
  other than NaN.
\<close>

theorem sanitizeTimeline_min_duration_sorted:
  "mset (sanitizeTimeline raw) =
     {# (if dlt (dsub (endTime e) (startTime e)) (Fin 2)
         then e\<lparr>endTime := dadd (startTime e) (Fin 2)\<rparr> else e).
        e \<in># mset raw #} \<and>
   ((\<forall>e\<in>set raw. isNumber (startTime e) \<and> startTime e \<noteq> NaN) \<longrightarrow>
      sorted_wrt (\<lambda>a b. dle (startTime a) (startTime b)) (sanitizeTimeline raw))"
proof -
  have m: "mset (sanitizeTimeline raw) =
     {# (if dlt (dsub (endTime e) (startTime e)) (Fin 2)
         then e\<lparr>endTime := dadd (startTime e) (Fin 2)\<rparr> else e).
        e \<in># mset raw #}"
    by (simp add: sanitizeTimeline_def mset_sortBy ensureMinDuration_cases)
  have s: "sorted_wrt (\<lambda>a b. dle (startTime a) (startTime b)) (sanitizeTimeline raw)"
    if "\<forall>e\<in>set raw. isNumber (startTime e) \<and> startTime e \<noteq> NaN"
  proof -
    from that have "\<forall>e\<in>set (map ensureMinDuration raw). goodKey (startTime e)"
      by (simp add: goodKey_def startTime_ensureMinDuration)
    then show ?thesis unfolding sanitizeTimeline_def by (rule sorted_sortBy)
  qed
  from m s show ?thesis by blast
qed

text \<open>
  On the raw timeline: the event from 0 to 1 ends at 2, the one from 0.3 to 1 ends at
  the double 2.3, the one from 0.4 to 2.4 is kept because the difference of the two
  doubles is exactly 2, the one at \<open>2^54\<close> keeps its end because \<open>2^54 + 2\<close> rounds to
  \<open>2^54\<close>, and the result is sorted.
\<close>

theorem sanitizeTimeline_min_duration_sorted_witness:
  "sanitizeTimeline rawTimeline =
     [(rawTimeline ! 1)\<lparr>endTime := Fin 2\<rparr>, (rawTimeline ! 0)\<lparr>endTime := rnd (23 / 10)\<rparr>,
      rawTimeline ! 2, rawTimeline ! 3] \<and>
   dadd (Fin (2 ^ 54)) (Fin 2) = Fin (2 ^ 54) \<and>
   dsub (rnd (12 / 5)) (rnd (2 / 5)) = Fin 2 \<and>
   sorted_wrt (\<lambda>a b. dle (startTime a) (startTime b)) (sanitizeTimeline rawTimeline) \<and>
   mset (sanitizeTimeline rawTimeline) =
     {# (if dlt (dsub (endTime e) (startTime e)) (Fin 2)
         then e\<lparr>endTime := dadd (startTime e) (Fin 2)\<rparr> else e). e \<in># mset rawTimeline #}"
proof -
  note fact = sanitizeTimeline_min_duration_sorted [of rawTimeline]
  have srt: "sorted_wrt (\<lambda>a b. dle (startTime a) (startTime b)) (sanitizeTimeline rawTimeline)"
    using fact rawTimeline_keys by blast
  have ms: "mset (sanitizeTimeline rawTimeline) =
     {# (if dlt (dsub (endTime e) (startTime e)) (Fin 2)
         then e\<lparr>endTime := dadd (startTime e) (Fin 2)\<rparr> else e). e \<in># mset rawTimeline #}"
    using fact by blast
  have big: "dadd (Fin (2 ^ 54)) (Fin 2) = Fin (2 ^ 54)"
    by (simp add: double_eval)
  have two: "dsub (rnd (12 / 5)) (rnd (2 / 5)) = Fin 2"
    by (simp add: dsub_def double_eval)
  from sanitize_rawTimeline big two srt ms show ?thesis by (intro conjI)
qed

text \<open>
  Claim C7. Sanitization is idempotent: sanitizing an already sanitized timeline
  returns it unchanged.
\<close>

theorem sanitizeTimeline_idempotent:
  "sanitizeTimeline (sanitizeTimeline raw) = sanitizeTimeline raw"
proof -
  have "sanitizeTimeline (sanitizeTimeline raw) =
          sortBy byStartTime (sortBy byStartTime (map ensureMinDuration (map ensureMinDuration raw)))"
    by (simp only: sanitizeTimeline_def map_sortBy_ensureMinDuration)
  also have "map ensureMinDuration (map ensureMinDuration raw) = map ensureMinDuration raw"
    by (simp add: ensureMinDuration_twice)
  also have "sortBy byStartTime (sortBy byStartTime (map ensureMinDuration raw)) =
               sortBy byStartTime (map ensureMinDuration raw)"
    by (rule sortBy_id) (rule successively_sortBy)
  finally show ?thesis by (simp only: sanitizeTimeline_def)
qed

theorem sanitizeTimeline_idempotent_witness:
  "sanitizeTimeline (sanitizeTimeline rawTimeline) =
     [(rawTimeline ! 1)\<lparr>endTime := Fin 2\<rparr>, (rawTimeline ! 0)\<lparr>endTime := rnd (23 / 10)\<rparr>,
      rawTimeline ! 2, rawTimeline ! 3]"
  using sanitizeTimeline_idempotent [of rawTimeline] by (simp only: sanitize_rawTimeline)


section \<open>Properties of the live preview\<close>

text \<open>
  Claim C3. An active-entry query (the active subtitle, the active event, the active
  zoom, the caption of the export) returns at most one entry; it returns an entry
  exactly when that entry is at some position of the list, its interval contains the
  time (and it is of the kind asked for), and no entry before that position is active,
  so of several entries active at once the first in list order is returned; it returns
  nothing exactly when no entry is active. The query is total: there is no error case.
\<close>

theorem active_query_first_match:
  "(activeSubtitle subs t = Some s \<longleftrightarrow>
      (\<exists>i<length subs. subs ! i = s \<and> dge t (sub_startTime s) \<and> dle t (sub_endTime s) \<and>
         (\<forall>j<i. \<not> (dge t (sub_startTime (subs ! j)) \<and> dle t (sub_endTime (subs ! j)))))) \<and>
   (activeSubtitle subs t = None \<longleftrightarrow>
      (\<forall>x\<in>set subs. \<not> (dge t (sub_startTime x) \<and> dle t (sub_endTime x)))) \<and>
   (activeEvent events t = Some e \<longleftrightarrow>
      (\<exists>i<length events. events ! i = e \<and> dge t (startTime e) \<and> dle t (endTime e) \<and>
         (\<forall>j<i. \<not> (dge t (startTime (events ! j)) \<and> dle t (endTime (events ! j)))))) \<and>
   (activeEvent events t = None \<longleftrightarrow>
      (\<forall>x\<in>set events. \<not> (dge t (startTime x) \<and> dle t (endTime x)))) \<and>
   (activeZoom events t = Some z \<longleftrightarrow>
      (\<exists>i<length events. events ! i = z \<and> type_ev z = Zoom \<and>
         dge t (startTime z) \<and> dle t (endTime z) \<and>
         (\<forall>j<i. \<not> (type_ev (events ! j) = Zoom \<and>
                    dge t (startTime (events ! j)) \<and> dle t (endTime (events ! j)))))) \<and>
   (activeZoom events t = None \<longleftrightarrow>
      (\<forall>x\<in>set events. \<not> (type_ev x = Zoom \<and> dge t (startTime x) \<and> dle t (endTime x)))) \<and>
   (exportCaption events t = Some c \<longleftrightarrow>
      (\<exists>i<length events. events ! i = c \<and> type_ev c = Caption \<and>
         dge t (startTime c) \<and> dle t (endTime c) \<and>
         (\<forall>j<i. \<not> (type_ev (events ! j) = Caption \<and>
                    dge t (startTime (events ! j)) \<and> dle t (endTime (events ! j)))))) \<and>
   (exportCaption events t = None \<longleftrightarrow>
      (\<forall>x\<in>set events. \<not> (type_ev x = Caption \<and> dge t (startTime x) \<and> dle t (endTime x))))"
proof -
  have sub_some: "activeSubtitle subs t = Some s \<longleftrightarrow>
      (\<exists>i<length subs. subs ! i = s \<and> dge t (sub_startTime s) \<and> dle t (sub_endTime s) \<and>
         (\<forall>j<i. \<not> (dge t (sub_startTime (subs ! j)) \<and> dle t (sub_endTime (subs ! j)))))"
    unfolding activeSubtitle_def find_Some_iff by blast
  have sub_none: "activeSubtitle subs t = None \<longleftrightarrow>
      (\<forall>x\<in>set subs. \<not> (dge t (sub_startTime x) \<and> dle t (sub_endTime x)))"
    unfolding activeSubtitle_def find_None_iff by blast
  have ev_some: "activeEvent events t = Some e \<longleftrightarrow>
      (\<exists>i<length events. events ! i = e \<and> dge t (startTime e) \<and> dle t (endTime e) \<and>
         (\<forall>j<i. \<not> (dge t (startTime (events ! j)) \<and> dle t (endTime (events ! j)))))"
    unfolding activeEvent_def find_Some_iff by blast
  have ev_none: "activeEvent events t = None \<longleftrightarrow>
      (\<forall>x\<in>set events. \<not> (dge t (startTime x) \<and> dle t (endTime x)))"
    unfolding activeEvent_def find_None_iff by blast
  have zoom_some: "activeZoom events t = Some z \<longleftrightarrow>
      (\<exists>i<length events. events ! i = z \<and> type_ev z = Zoom \<and>
         dge t (startTime z) \<and> dle t (endTime z) \<and>
         (\<forall>j<i. \<not> (type_ev (events ! j) = Zoom \<and>
                    dge t (startTime (events ! j)) \<and> dle t (endTime (events ! j)))))"
    unfolding activeZoom_def find_Some_iff by blast
  have zoom_none: "activeZoom events t = None \<longleftrightarrow>
      (\<forall>x\<in>set events. \<not> (type_ev x = Zoom \<and> dge t (startTime x) \<and> dle t (endTime x)))"
    unfolding activeZoom_def find_None_iff by blast
  have cap_some: "exportCaption events t = Some c \<longleftrightarrow>
      (\<exists>i<length events. events ! i = c \<and> type_ev c = Caption \<and>
         dge t (startTime c) \<and> dle t (endTime c) \<and>
         (\<forall>j<i. \<not> (type_ev (events ! j) = Caption \<and>
                    dge t (startTime (events ! j)) \<and> dle t (endTime (events ! j)))))"
    unfolding exportCaption_def find_Some_iff by blast
  have cap_none: "exportCaption events t = None \<longleftrightarrow>
      (\<forall>x\<in>set events. \<not> (type_ev x = Caption \<and> dge t (startTime x) \<and> dle t (endTime x)))"
    unfolding exportCaption_def find_None_iff by blast
  from sub_some sub_none ev_some ev_none zoom_some zoom_none cap_some cap_none
  show ?thesis by (intro conjI)
qed

theorem active_query_first_match_witness:
  "activeSubtitle exampleSubtitles (Fin (5 / 2)) = Some (exampleSubtitles ! 0) \<and>
   dge (Fin (5 / 2)) (sub_startTime (exampleSubtitles ! 1)) \<and>
   dle (Fin (5 / 2)) (sub_endTime (exampleSubtitles ! 1)) \<and>
   activeEvent exampleTimeline (Fin (5 / 2)) = Some (exampleTimeline ! 0) \<and>
   activeZoom exampleTimeline (Fin (5 / 2)) = Some (exampleTimeline ! 0) \<and>
   exportCaption exampleTimeline (Fin (5 / 2)) = Some (exampleTimeline ! 1) \<and>
   dge (Fin (5 / 2)) (startTime (exampleTimeline ! 2)) \<and>
   dle (Fin (5 / 2)) (endTime (exampleTimeline ! 2)) \<and>
   activeSubtitle exampleSubtitles (Fin 6) = None \<and>
   activeZoom exampleTimeline (Fin 6) = None"
proof -
  note fact = active_query_first_match
    [of exampleSubtitles "Fin (5 / 2)" "exampleSubtitles ! 0" exampleTimeline "exampleTimeline ! 0"
        "exampleTimeline ! 0" "exampleTimeline ! 1"]
  note late = active_query_first_match
    [of exampleSubtitles "Fin 6" "exampleSubtitles ! 0" exampleTimeline "exampleTimeline ! 0"
        "exampleTimeline ! 0" "exampleTimeline ! 1"]
  have sub: "activeSubtitle exampleSubtitles (Fin (5 / 2)) = Some (exampleSubtitles ! 0)"
    by (rule iffD2 [OF fact [THEN conjunct1]], rule exI [of _ 0])
      (simp add: exampleSubtitles_def dge_def)
  have ev: "activeEvent exampleTimeline (Fin (5 / 2)) = Some (exampleTimeline ! 0)"
    by (rule iffD2 [OF fact [THEN conjunct2, THEN conjunct2, THEN conjunct1]], rule exI [of _ 0])
      (simp add: exampleTimeline_def dge_def)
  have zm: "activeZoom exampleTimeline (Fin (5 / 2)) = Some (exampleTimeline ! 0)"
    by (rule iffD2 [OF fact [THEN conjunct2, THEN conjunct2, THEN conjunct2, THEN conjunct2,
            THEN conjunct1]], rule exI [of _ 0])
      (simp add: exampleTimeline_def dge_def)
  have cap: "exportCaption exampleTimeline (Fin (5 / 2)) = Some (exampleTimeline ! 1)"
    by (rule iffD2 [OF fact [THEN conjunct2, THEN conjunct2, THEN conjunct2, THEN conjunct2,
            THEN conjunct2, THEN conjunct2, THEN conjunct1]], rule exI [of _ 1])
      (simp add: exampleTimeline_def dge_def)
  have nosub: "activeSubtitle exampleSubtitles (Fin 6) = None"
    by (rule iffD2 [OF late [THEN conjunct2, THEN conjunct1]])
      (simp add: exampleSubtitles_def dge_def)
  have nozoom: "activeZoom exampleTimeline (Fin 6) = None"
    by (rule iffD2 [OF late [THEN conjunct2, THEN conjunct2, THEN conjunct2, THEN conjunct2,
            THEN conjunct2, THEN conjunct1]])
      (simp add: exampleTimeline_def dge_def)
  have s1: "dge (Fin (5 / 2)) (sub_startTime (exampleSubtitles ! 1))"
    and s2: "dle (Fin (5 / 2)) (sub_endTime (exampleSubtitles ! 1))"
    by (simp_all add: exampleSubtitles_def dge_def)
  have e1: "dge (Fin (5 / 2)) (startTime (exampleTimeline ! 2))"
    and e2: "dle (Fin (5 / 2)) (endTime (exampleTimeline ! 2))"
    by (simp_all add: exampleTimeline_def dge_def)
  from sub s1 s2 ev zm cap e1 e2 nosub nozoom show ?thesis by (intro conjI)
qed

text \<open>
  Claim C4. On a preview tick (not exporting) with a narration audio element: when the
  voiceover is enabled, the audio is playing and its clock differs from the video time
  by more than 0.3 seconds, the audio clock is set to the video time; when the
  difference is not more than 0.3 seconds the audio element is left as it is; in every
  case the playback rate of the audio element is unchanged. The difference and the
  literal 0.3 are those of the program, on doubles.
\<close>

theorem audio_sync_snap:
  assumes "\<not> isExporting s" and "aud s = Some a"
  shows "(isVoiceoverEnabled s \<and> \<not> aud_paused a \<and>
          dgt (dabs (dsub (aud_currentTime a) time)) (rnd (3 / 10)) \<longrightarrow>
            aud (handleTimeUpdate time s) = Some (a\<lparr>aud_currentTime := time\<rparr>)) \<and>
         (\<not> dgt (dabs (dsub (aud_currentTime a) time)) (rnd (3 / 10)) \<longrightarrow>
            aud (handleTimeUpdate time s) = Some a) \<and>
         map_option aud_playbackRate (aud (handleTimeUpdate time s)) = Some (aud_playbackRate a)"
  using assms by (simp add: handleTimeUpdate_def syncAudio_def Let_def)

text \<open>
  The narration half a second ahead of the video is snapped; the narration at 0.32
  with the video at 0.02 is left alone, because the difference of the two doubles is
  the double 0.3; with the video at 0 it is snapped.
\<close>

theorem audio_sync_snap_witness:
  "aud (handleTimeUpdate (Fin 2) exampleEditor) =
     Some \<lparr>aud_currentTime = Fin 2, aud_paused = False, aud_playbackRate = Fin 1\<rparr> \<and>
   dabs (dsub (rnd (8 / 25)) (rnd (1 / 50))) = rnd (3 / 10) \<and>
   aud (handleTimeUpdate (rnd (1 / 50)) driftEditor) =
     Some \<lparr>aud_currentTime = rnd (8 / 25), aud_paused = False, aud_playbackRate = Fin 1\<rparr> \<and>
   aud (handleTimeUpdate (Fin 0) driftEditor) =
     Some \<lparr>aud_currentTime = Fin 0, aud_paused = False, aud_playbackRate = Fin 1\<rparr>"
proof -
  have a: "\<not> isExporting exampleEditor" by (simp add: exampleEditor_def)
  have b: "aud exampleEditor =
      Some \<lparr>aud_currentTime = Fin (5 / 2), aud_paused = False, aud_playbackRate = Fin 1\<rparr>"
    by (simp add: exampleEditor_def)
  have c: "isVoiceoverEnabled exampleEditor" by (simp add: exampleEditor_def)
  have a': "\<not> isExporting driftEditor" by (simp add: driftEditor_def exampleEditor_def)
  have b': "aud driftEditor =
      Some \<lparr>aud_currentTime = rnd (8 / 25), aud_paused = False, aud_playbackRate = Fin 1\<rparr>"
    by (simp add: driftEditor_def)
  have c': "isVoiceoverEnabled driftEditor" by (simp add: driftEditor_def exampleEditor_def)
  have far: "dgt (dabs (dsub (Fin (5 / 2)) (Fin 2))) (rnd (3 / 10))"
    by (simp add: dsub_def dgt_def double_eval)
  have eq: "dabs (dsub (rnd (8 / 25)) (rnd (1 / 50))) = rnd (3 / 10)"
    by (simp add: dsub_def double_eval)
  have near: "\<not> dgt (dabs (dsub (rnd (8 / 25)) (rnd (1 / 50)))) (rnd (3 / 10))"
    unfolding eq by (simp add: dgt_def double_eval)
  have far': "dgt (dabs (dsub (rnd (8 / 25)) (Fin 0))) (rnd (3 / 10))"
    by (simp add: dsub_def dgt_def double_eval)
  have r1: "aud (handleTimeUpdate (Fin 2) exampleEditor) =
     Some \<lparr>aud_currentTime = Fin 2, aud_paused = False, aud_playbackRate = Fin 1\<rparr>"
    using audio_sync_snap [OF a b, of "Fin 2", THEN conjunct1] c far by simp
  have r2: "aud (handleTimeUpdate (rnd (1 / 50)) driftEditor) =
     Some \<lparr>aud_currentTime = rnd (8 / 25), aud_paused = False, aud_playbackRate = Fin 1\<rparr>"
    using audio_sync_snap [OF a' b', of "rnd (1 / 50)", THEN conjunct2, THEN conjunct1] near
    by simp
  have r3: "aud (handleTimeUpdate (Fin 0) driftEditor) =
     Some \<lparr>aud_currentTime = Fin 0, aud_paused = False, aud_playbackRate = Fin 1\<rparr>"
    using audio_sync_snap [OF a' b', of "Fin 0", THEN conjunct1] c' far' by simp
  from r1 eq r2 r3 show ?thesis by (intro conjI)
qed


section \<open>Properties of the export run\<close>

text \<open>
  What the render loop returns: a frame and a progress value for every observation
  before the first stop, and whether a stop was observed.
\<close>

lemma renderLoop_frames:
  "fst (renderLoop (drawFrame ed br startT endT format isGifMode) obs) =
     map (\<lambda>ob. if has2dContext br then frameOps ed br format isGifMode (fst ob) else [])
       (composited endT obs)"
  by (induction obs) (auto simp add: composited_def drawFrame_def split: prod.splits)



lemma renderLoop_stopped:
  "snd (snd (renderLoop (drawFrame ed br startT endT format isGifMode) obs)) \<longleftrightarrow>
     (\<exists>ob\<in>set obs. dge (fst ob) endT \<or> snd ob)"
  by (induction obs) (auto simp add: drawFrame_def split: prod.splits)

lemma renderToVideo_frames:
  assumes "outcome (renderToVideo ed br startT endT format isGifMode) = Resolved b"
  shows "canvasFrames b =
     map (\<lambda>ob. if has2dContext br then frameOps ed br format isGifMode (fst ob) else [])
       (composited endT (playFrom br startT))"
  using assms renderLoop_frames [of ed br startT endT format isGifMode "playFrom br startT"]
  by (auto simp add: renderToVideo_def Let_def split: prod.splits if_splits option.splits)



lemma renderToVideo_resolves:
  assumes "metadataLoads br" and "mimeTypeSupported br ''video/webm;codecs=vp9''"
    and "playResolves br"
    and "isGifMode \<or> \<not> isVoiceoverEnabled ed \<or> audioBlob ed = None \<or>
         (\<exists>a. audioBlob ed = Some a \<and> decodable a) \<and> dge startT (Fin 0)"
    and "\<exists>ob\<in>set (playFrom br startT). dge (fst ob) endT \<or> snd ob"
    and "isFinite startT"
  shows "\<exists>b. outcome (renderToVideo ed br startT endT format isGifMode) = Resolved b"
proof -
  obtain fs ps st where
    rl: "renderLoop (drawFrame ed br startT endT format isGifMode) (playFrom br startT) = (fs, ps, st)"
    by (metis prod_cases3)
  have st: "st"
    using renderLoop_stopped [of ed br startT endT format isGifMode "playFrom br startT"]
      assms(5) rl by simp
  have nd: "\<not> (case (if \<not> isGifMode \<and> isVoiceoverEnabled ed then audioBlob ed else None) of
                 None \<Rightarrow> False | Some b \<Rightarrow> \<not> decodable b)"
    using assms(4) by (auto split: option.splits)
  have ns: "\<not> (case (if \<not> isGifMode \<and> isVoiceoverEnabled ed then audioBlob ed else None) of
                 None \<Rightarrow> False | Some b \<Rightarrow> \<not> (isFinite startT \<and> dge startT (Fin 0)))"
    using assms(4,6) by (auto split: option.splits)
  show ?thesis using assms(1-3,6) nd ns rl st by (simp add: renderToVideo_def Let_def)
qed

lemma renderToVideo_blob:
  assumes "outcome (renderToVideo ed br startT endT format isGifMode) = Resolved b"
  shows "videoBitsPerSecond b = (if isGifMode then 2500000 else 5000000) \<and>
         recorder_mimeType b = ''video/webm;codecs=vp9'' \<and>
         (isGifMode \<longrightarrow> narrationOffset b = None)"
  using assms
  by (auto simp add: renderToVideo_def Let_def split: prod.splits if_splits option.splits)





lemma exampleBrowser_starts:
  "metadataLoads exampleBrowser" "mimeTypeSupported exampleBrowser ''video/webm;codecs=vp9''"
  "playResolves exampleBrowser"
  by (simp_all add: exampleBrowser_def)


lemma handleExportVideo_settled:
  assumes "outcome (renderToVideo
      (s\<lparr>isExporting := True, showExportMenu := False, isPlaying := False,
          aud := map_option (\<lambda>a. a\<lparr>aud_paused := True\<rparr>) (aud s)\<rparr>) br (Fin 0)
      (if truthy (duration s) then duration s else Fin 30) format False) = Resolved b"
  shows "settled (handleExportVideo br format s)"
    and "progressTrace (handleExportVideo br format s) =
      progressUpdates (renderToVideo
        (s\<lparr>isExporting := True, showExportMenu := False, isPlaying := False,
            aud := map_option (\<lambda>a. a\<lparr>aud_paused := True\<rparr>) (aud s)\<rparr>) br (Fin 0)
        (if truthy (duration s) then duration s else Fin 30) format False) @ [Fin 0]"
    and "download (handleExportVideo br format s) =
      Some (''demo-export-'' @ formatName format @ ''.webm'', b)"
  using assms by (simp_all add: handleExportVideo_def Let_def cong: if_cong)

lemma handleExportVideo_unsettled:
  assumes "outcome (renderToVideo
      (s\<lparr>isExporting := True, showExportMenu := False, isPlaying := False,
          aud := map_option (\<lambda>a. a\<lparr>aud_paused := True\<rparr>) (aud s)\<rparr>) br (Fin 0)
      (if truthy (duration s) then duration s else Fin 30) format False) = Unsettled r"
  shows "\<not> settled (handleExportVideo br format s)"
    and "download (handleExportVideo br format s) = None"
    and "isExporting (editor (handleExportVideo br format s))"
  using assms by (simp_all add: handleExportVideo_def Let_def cong: if_cong)




section \<open>Properties of the export progress\<close>















section \<open>Properties of the export compositor\<close>

text \<open>
  The quotient of two doubles is at least the exact quotient less one part in
  \<open>2^53\<close>, so the scaled size is at least the double below the size of the canvas.
\<close>

lemma isDouble_1280: "isDouble 1280"
  by (simp add: isDouble_def fl_def ulp_def expo_def compute_bitlen roundEven_def Let_def)

lemma isDouble_720: "isDouble 720"
  by (simp add: isDouble_def fl_def ulp_def expo_def compute_bitlen roundEven_def Let_def)

lemma rnd_below_1280: "rnd (1280 * (1 - 2 powi (- 53))) = Fin (1280 - 2 powi (- 42))"
  by (simp add: rnd_def fl_def ulp_def expo_def compute_bitlen roundEven_def Let_def)

lemma rnd_below_720: "rnd (720 * (1 - 2 powi (- 53))) = Fin (720 - 2 powi (- 43))"
  by (simp add: rnd_def fl_def ulp_def expo_def compute_bitlen roundEven_def Let_def)

lemma ratio_lower:
  assumes "isDouble W" and "4 \<le> W" and "isDouble w" and "1 \<le> w"
  shows "\<exists>q. ddiv (Fin W) (Fin w) = Fin q \<and> W / w * (1 - 2 powi (- 53)) \<le> q"
proof -
  let ?x = "W / w"
  have wpos: "0 < w" using assms(4) by simp
  have xpos: "0 < ?x" using assms(2) wpos by simp
  have "w < 2 ^ 1024" using isDouble_less [OF assms(3)] by simp
  then have "4 / 2 ^ 1024 < 4 / w" using wpos by (intro divide_strict_left_mono) simp_all
  also have "4 / w \<le> ?x" using assms(2) wpos by (intro divide_right_mono) simp_all
  finally have lt: "4 / 2 ^ 1024 < ?x" .
  have e1: "(2::real) powi (- 1022) = 4 / 2 ^ 1024" by (simp add: power_int_minus_divide)
  from lt have "2 powi (- 1022) < ?x" by (simp only: e1)
  then have norm: "2 powi (- 1022) \<le> \<bar>?x\<bar>" by linarith
  have "?x \<le> W" using assms(2,4) by (simp add: pos_divide_le_eq mult_le_cancel_left1)
  then have "fl ?x \<le> fl W" by (rule fl_mono)
  moreover have "fl W = W" "\<bar>W\<bar> < 2 ^ 1024" using assms(1) unfolding isDouble_def by blast+
  ultimately have up: "fl ?x < 2 ^ 1024" by linarith
  have lo: "0 \<le> fl ?x" using xpos by (intro fl_nonneg) simp
  have r: "ddiv (Fin W) (Fin w) = Fin (fl ?x)"
    using wpos up lo by (simp add: rnd_def Let_def)
  have ae: "\<bar>?x\<bar> = ?x" using xpos by (rule abs_of_pos)
  have "\<bar>fl ?x - ?x\<bar> \<le> \<bar>?x\<bar> * 2 powi (- 53)" using norm by (rule fl_rel_error)
  then have "\<bar>fl ?x - ?x\<bar> \<le> ?x * 2 powi (- 53)" by (simp only: ae)
  then have "?x - ?x * 2 powi (- 53) \<le> fl ?x" by linarith
  moreover have "?x * (1 - 2 powi (- 53)) = ?x - ?x * 2 powi (- 53)"
    by (simp only: right_diff_distrib mult_1_right)
  ultimately have "?x * (1 - 2 powi (- 53)) \<le> fl ?x" by linarith
  with r show ?thesis by blast
qed

lemma cover_one:
  assumes "isDouble W" and "4 \<le> W" and "isDouble w" and "1 \<le> w"
    and "ddiv (Fin W) (Fin w) = Fin q" and "sc = Fin sv" and "q \<le> sv"
  shows "dle (rnd (W * (1 - 2 powi (- 53)))) (dmul (Fin w) sc)"
proof -
  obtain q' where q': "ddiv (Fin W) (Fin w) = Fin q'" "W / w * (1 - 2 powi (- 53)) \<le> q'"
    using ratio_lower [OF assms(1-4)] by blast
  then have "W / w * (1 - 2 powi (- 53)) \<le> sv" using assms(5,7) by simp
  then have "w * (W / w * (1 - 2 powi (- 53))) \<le> w * sv"
    using assms(4) by (intro mult_left_mono) simp_all
  moreover have "w * (W / w * (1 - 2 powi (- 53))) = W * (1 - 2 powi (- 53))"
    using assms(4) by simp
  ultimately have "W * (1 - 2 powi (- 53)) \<le> w * sv" by simp
  then have "dle (rnd (W * (1 - 2 powi (- 53)))) (rnd (w * sv))" by (rule rnd_mono)
  then show ?thesis using assms(6) by simp
qed

lemma cover_scale:
  assumes "isDouble W" and "4 \<le> W" and "isDouble H" and "4 \<le> H"
    and "isDouble w" and "1 \<le> w" and "isDouble h" and "1 \<le> h"
  shows "dle (rnd (W * (1 - 2 powi (- 53))))
           (dmul (Fin w) (spec_coverScale (Fin W) (Fin H) (Fin w) (Fin h))) \<and>
         dle (rnd (H * (1 - 2 powi (- 53))))
           (dmul (Fin h) (spec_coverScale (Fin W) (Fin H) (Fin w) (Fin h)))"
proof -
  obtain q1 where q1: "ddiv (Fin W) (Fin w) = Fin q1"
    using ratio_lower [OF assms(1,2,5,6)] by blast
  obtain q2 where q2: "ddiv (Fin H) (Fin h) = Fin q2"
    using ratio_lower [OF assms(3,4,7,8)] by blast
  have sc: "spec_coverScale (Fin W) (Fin H) (Fin w) (Fin h) = Fin (max q1 q2)"
    unfolding spec_coverScale_def q1 q2 by (simp add: dmax_def max_def)
  have a: "dle (rnd (W * (1 - 2 powi (- 53))))
           (dmul (Fin w) (spec_coverScale (Fin W) (Fin H) (Fin w) (Fin h)))"
    using assms(1,2,5,6) q1 sc by (rule cover_one) simp
  have b: "dle (rnd (H * (1 - 2 powi (- 53))))
           (dmul (Fin h) (spec_coverScale (Fin W) (Fin H) (Fin w) (Fin h)))"
    using assms(3,4,7,8) q2 sc by (rule cover_one) simp
  from a b show ?thesis by blast
qed

text \<open>
  Claim C6, as the program has it. A composited frame (the canvas gave a context, the
  position is before the end) first fills the whole canvas with \<open>#000\<close>, then draws the
  video with \<open>scale = max(outW / srcW, outH / srcH)\<close> at the size
  \<open>(srcW * scale, srcH * scale)\<close> and the offset
  \<open>((outW - srcW * scale) / 2, (outH - srcH * scale) / 2)\<close>, every operation rounded to
  a double. For a source of at least one pixel each way the scaled size is at least the
  double just below the size of the canvas, \<open>1280 - 2^-42\<close> and \<open>720 - 2^-43\<close>: the
  image covers the canvas up to the last bit of the rounding.
\<close>

theorem drawFrame_fit_cover:
  assumes "has2dContext br" and "\<not> dge cur endT"
  shows "(\<exists>overlays p.
            drawFrame ed br startT endT format isGifMode (cur, False) =
              Drawn (FillRect ''#000'' (Fin 0) (Fin 0) (canvasWidth format) (canvasHeight format) #
                     DrawImage
                       (ddiv (dsub (canvasWidth format)
                          (dmul (videoWidth br) (spec_coverScale (canvasWidth format)
                             (canvasHeight format) (videoWidth br) (videoHeight br)))) (Fin 2))
                       (ddiv (dsub (canvasHeight format)
                          (dmul (videoHeight br) (spec_coverScale (canvasWidth format)
                             (canvasHeight format) (videoWidth br) (videoHeight br)))) (Fin 2))
                       (dmul (videoWidth br) (spec_coverScale (canvasWidth format)
                          (canvasHeight format) (videoWidth br) (videoHeight br)))
                       (dmul (videoHeight br) (spec_coverScale (canvasWidth format)
                          (canvasHeight format) (videoWidth br) (videoHeight br))) #
                     overlays) p) \<and>
         (videoWidth br = Fin w \<and> videoHeight br = Fin h \<and> isDouble w \<and> isDouble h \<and>
          1 \<le> w \<and> 1 \<le> h \<longrightarrow>
            dle (if format = Landscape then Fin (1280 - 2 powi (- 42))
                 else Fin (720 - 2 powi (- 43)))
              (dmul (videoWidth br) (spec_coverScale (canvasWidth format)
                 (canvasHeight format) (videoWidth br) (videoHeight br))) \<and>
            dle (if format = Landscape then Fin (720 - 2 powi (- 43))
                 else Fin (1280 - 2 powi (- 42)))
              (dmul (videoHeight br) (spec_coverScale (canvasWidth format)
                 (canvasHeight format) (videoWidth br) (videoHeight br))))"
proof -
  have draw: "\<exists>overlays p.
            drawFrame ed br startT endT format isGifMode (cur, False) =
              Drawn (FillRect ''#000'' (Fin 0) (Fin 0) (canvasWidth format) (canvasHeight format) #
                     DrawImage
                       (ddiv (dsub (canvasWidth format)
                          (dmul (videoWidth br) (spec_coverScale (canvasWidth format)
                             (canvasHeight format) (videoWidth br) (videoHeight br)))) (Fin 2))
                       (ddiv (dsub (canvasHeight format)
                          (dmul (videoHeight br) (spec_coverScale (canvasWidth format)
                             (canvasHeight format) (videoWidth br) (videoHeight br)))) (Fin 2))
                       (dmul (videoWidth br) (spec_coverScale (canvasWidth format)
                          (canvasHeight format) (videoWidth br) (videoHeight br)))
                       (dmul (videoHeight br) (spec_coverScale (canvasWidth format)
                          (canvasHeight format) (videoWidth br) (videoHeight br))) #
                     overlays) p"
    using assms by (simp add: drawFrame_def frameOps_def Let_def spec_coverScale_def)
  have cover: "dle (if format = Landscape then Fin (1280 - 2 powi (- 42))
                 else Fin (720 - 2 powi (- 43)))
              (dmul (videoWidth br) (spec_coverScale (canvasWidth format)
                 (canvasHeight format) (videoWidth br) (videoHeight br))) \<and>
            dle (if format = Landscape then Fin (720 - 2 powi (- 43))
                 else Fin (1280 - 2 powi (- 42)))
              (dmul (videoHeight br) (spec_coverScale (canvasWidth format)
                 (canvasHeight format) (videoWidth br) (videoHeight br)))"
    if h: "videoWidth br = Fin w" "videoHeight br = Fin h" "isDouble w" "isDouble h"
      "1 \<le> w" "1 \<le> h"
  proof (cases "format = Landscape")
    case True
    have "dle (rnd (1280 * (1 - 2 powi (- 53))))
           (dmul (Fin w) (spec_coverScale (Fin 1280) (Fin 720) (Fin w) (Fin h))) \<and>
         dle (rnd (720 * (1 - 2 powi (- 53))))
           (dmul (Fin h) (spec_coverScale (Fin 1280) (Fin 720) (Fin w) (Fin h)))"
      using isDouble_1280 _ isDouble_720 _ h(3) h(5) h(4) h(6) by (rule cover_scale) simp_all
    then have "dle (Fin (1280 - 2 powi (- 42)))
           (dmul (Fin w) (spec_coverScale (Fin 1280) (Fin 720) (Fin w) (Fin h))) \<and>
         dle (Fin (720 - 2 powi (- 43)))
           (dmul (Fin h) (spec_coverScale (Fin 1280) (Fin 720) (Fin w) (Fin h)))"
      by (simp only: rnd_below_1280 rnd_below_720)
    moreover have "canvasWidth format = Fin 1280" "canvasHeight format = Fin 720"
      using True by (simp_all add: canvasWidth_def canvasHeight_def)
    ultimately show ?thesis
      using True by (simp only: h(1,2) if_True if_False simp_thms)
  next
    case False
    have "dle (rnd (720 * (1 - 2 powi (- 53))))
           (dmul (Fin w) (spec_coverScale (Fin 720) (Fin 1280) (Fin w) (Fin h))) \<and>
         dle (rnd (1280 * (1 - 2 powi (- 53))))
           (dmul (Fin h) (spec_coverScale (Fin 720) (Fin 1280) (Fin w) (Fin h)))"
      using isDouble_720 _ isDouble_1280 _ h(3) h(5) h(4) h(6) by (rule cover_scale) simp_all
    then have "dle (Fin (720 - 2 powi (- 43)))
           (dmul (Fin w) (spec_coverScale (Fin 720) (Fin 1280) (Fin w) (Fin h))) \<and>
         dle (Fin (1280 - 2 powi (- 42)))
           (dmul (Fin h) (spec_coverScale (Fin 720) (Fin 1280) (Fin w) (Fin h)))"
      by (simp only: rnd_below_1280 rnd_below_720)
    moreover have "canvasWidth format = Fin 720" "canvasHeight format = Fin 1280"
      using False by (simp_all add: canvasWidth_def canvasHeight_def)
    ultimately show ?thesis
      using False by (simp only: h(1,2) if_True if_False simp_thms)
  qed
  from draw cover show ?thesis by blast
qed

text \<open>
  A source of 1920 by 1080 on the portrait canvas: the image is drawn 2275.5555555555557
  wide and 1280 high at the offset \<open>(-777.7777777777778, 0)\<close>.
\<close>

theorem drawFrame_fit_cover_witness:
  "drawFrame exampleEditor exampleBrowser (Fin 0) (Fin 7) Portrait True (Fin 5, False) =
     Drawn [FillRect ''#000'' (Fin 0) (Fin 0) (Fin 720) (Fin 1280),
            DrawImage (Fin (- (1710351420984889 / 2 ^ 41))) (Fin 0)
              (Fin (2501999792983609 / 2 ^ 40)) (Fin 1280)] None \<and>
   spec_coverScale (Fin 720) (Fin 1280) (Fin 1920) (Fin 1080) = Fin (667199944795629 / 2 ^ 49) \<and>
   dle (Fin (720 - 2 powi (- 43)))
     (dmul (videoWidth exampleBrowser)
        (spec_coverScale (canvasWidth Portrait) (canvasHeight Portrait)
           (videoWidth exampleBrowser) (videoHeight exampleBrowser))) \<and>
   dle (Fin (1280 - 2 powi (- 42)))
     (dmul (videoHeight exampleBrowser)
        (spec_coverScale (canvasWidth Portrait) (canvasHeight Portrait)
           (videoWidth exampleBrowser) (videoHeight exampleBrowser)))"
proof -
  have a: "has2dContext exampleBrowser" by (simp add: exampleBrowser_def)
  have b: "\<not> dge (Fin 5) (Fin 7)" by (simp add: dge_def)
  have size: "videoWidth exampleBrowser = Fin 1920 \<and> videoHeight exampleBrowser = Fin 1080 \<and>
      isDouble 1920 \<and> isDouble 1080 \<and> (1::real) \<le> 1920 \<and> (1::real) \<le> 1080"
    by (simp add: exampleBrowser_def isDouble_def double_eval)
  note fact = drawFrame_fit_cover [OF a b, where ed = exampleEditor and startT = "Fin 0"
      and format = Portrait and isGifMode = True and w = 1920 and h = 1080]
  from fact size have cov:
    "dle (if Portrait = Landscape then Fin (1280 - 2 powi (- 42)) else Fin (720 - 2 powi (- 43)))
       (dmul (videoWidth exampleBrowser)
          (spec_coverScale (canvasWidth Portrait) (canvasHeight Portrait)
             (videoWidth exampleBrowser) (videoHeight exampleBrowser))) \<and>
     dle (if Portrait = Landscape then Fin (720 - 2 powi (- 43)) else Fin (1280 - 2 powi (- 42)))
       (dmul (videoHeight exampleBrowser)
          (spec_coverScale (canvasWidth Portrait) (canvasHeight Portrait)
             (videoWidth exampleBrowser) (videoHeight exampleBrowser)))"
    by blast
  have ne: "Portrait \<noteq> Landscape" by simp
  have sc: "spec_coverScale (Fin 720) (Fin 1280) (Fin 1920) (Fin 1080) =
      Fin (667199944795629 / 2 ^ 49)"
    by (simp add: spec_coverScale_def dmax_def double_eval)
  have dr: "drawFrame exampleEditor exampleBrowser (Fin 0) (Fin 7) Portrait True (Fin 5, False) =
     Drawn [FillRect ''#000'' (Fin 0) (Fin 0) (Fin 720) (Fin 1280),
            DrawImage (Fin (- (1710351420984889 / 2 ^ 41))) (Fin 0)
              (Fin (2501999792983609 / 2 ^ 40)) (Fin 1280)] None"
    by (simp add: drawFrame_def frameOps_def exampleEditor_def exampleBrowser_def
        exampleTimeline_def exportCaption_def captionOps_def canvasWidth_def canvasHeight_def
        dmax_def dsub_def dge_def double_eval)
  from cov have c1: "dle (Fin (720 - 2 powi (- 43)))
       (dmul (videoWidth exampleBrowser)
          (spec_coverScale (canvasWidth Portrait) (canvasHeight Portrait)
             (videoWidth exampleBrowser) (videoHeight exampleBrowser)))"
    and c2: "dle (Fin (1280 - 2 powi (- 42)))
       (dmul (videoHeight exampleBrowser)
          (spec_coverScale (canvasWidth Portrait) (canvasHeight Portrait)
             (videoWidth exampleBrowser) (videoHeight exampleBrowser)))"
    by (simp_all only: ne if_False)
  from dr sc c1 c2 show ?thesis by (intro conjI)
qed

text \<open>
  The claim as stated (never letterboxing) fails: for a source of 1232 by 693 on
  the landscape canvas the scale is rounded down, the image is drawn
  1279.9999999999998 wide and 719.9999999999999 high, smaller than the canvas, at
  offsets above zero.
\<close>

theorem drawFrame_letterbox_counterexample:
  "drawFrame exampleEditor smallVideoBrowser (Fin 0) (Fin 7) Landscape True (Fin 5, False) =
     Drawn [FillRect ''#000'' (Fin 0) (Fin 0) (Fin 1280) (Fin 720),
            DrawImage (Fin (2 powi (- 43))) (Fin (2 powi (- 44)))
              (Fin (1280 - 2 powi (- 42))) (Fin (720 - 2 powi (- 43)))] None \<and>
   spec_coverScale (Fin 1280) (Fin 720) (Fin 1232) (Fin 693) =
     Fin (2339532273958699 / 2 ^ 51) \<and>
   dlt (Fin (1280 - 2 powi (- 42))) (canvasWidth Landscape) \<and>
   dlt (Fin (720 - 2 powi (- 43))) (canvasHeight Landscape) \<and>
   dgt (Fin (2 powi (- 43))) (Fin 0) \<and>
   dgt (Fin (2 powi (- 44))) (Fin 0)"
proof -
  have dr: "drawFrame exampleEditor smallVideoBrowser (Fin 0) (Fin 7) Landscape True (Fin 5, False) =
     Drawn [FillRect ''#000'' (Fin 0) (Fin 0) (Fin 1280) (Fin 720),
            DrawImage (Fin (2 powi (- 43))) (Fin (2 powi (- 44)))
              (Fin (1280 - 2 powi (- 42))) (Fin (720 - 2 powi (- 43)))] None"
    by (simp add: drawFrame_def frameOps_def exampleEditor_def smallVideoBrowser_def
        exampleBrowser_def exampleTimeline_def exportCaption_def captionOps_def canvasWidth_def
        canvasHeight_def dmax_def dsub_def dge_def double_eval)
  have sc: "spec_coverScale (Fin 1280) (Fin 720) (Fin 1232) (Fin 693) =
      Fin (2339532273958699 / 2 ^ 51)"
    by (simp add: spec_coverScale_def dmax_def double_eval)
  have lt: "dlt (Fin (1280 - 2 powi (- 42))) (canvasWidth Landscape)"
    "dlt (Fin (720 - 2 powi (- 43))) (canvasHeight Landscape)"
    "dgt (Fin (2 powi (- 43))) (Fin 0)" "dgt (Fin (2 powi (- 44))) (Fin 0)"
    by (simp_all add: canvasWidth_def canvasHeight_def dgt_def)
  from dr sc lt show ?thesis by (intro conjI)
qed


section \<open>Properties of the highlight clips\<close>

text \<open>
  In GIF mode a render reads only the timeline of the editor, and a frame is the frame
  of a full export with no subtitles.
\<close>

lemma frameOps_gif_cong:
  "timeline ed' = timeline ed \<Longrightarrow> frameOps ed' br format True t = frameOps ed br format True t"
  by (simp add: frameOps_def)

lemma drawFrame_gif_cong:
  "timeline ed' = timeline ed \<Longrightarrow>
   drawFrame ed' br startT endT format True = drawFrame ed br startT endT format True"
  by (rule ext) (simp add: drawFrame_def frameOps_gif_cong [of ed' ed] split: prod.splits)

lemma renderToVideo_gif_cong:
  "timeline ed' = timeline ed \<Longrightarrow>
   renderToVideo ed' br startT endT format True = renderToVideo ed br startT endT format True"
  by (simp add: renderToVideo_def drawFrame_gif_cong [of ed' ed])

lemma frameOps_gif_no_subtitles:
  "frameOps ed br format True t = frameOps (ed\<lparr>subtitles := []\<rparr>) br format False t"
  by (simp add: frameOps_def activeSubtitle_def subtitleOps_def)

lemma renderClips_resolves:
  assumes "metadataLoads br" and "mimeTypeSupported br ''video/webm;codecs=vp9''"
    and "playResolves br"
    and "\<forall>e\<in>set evs. isFinite (startTime e) \<and>
           (\<exists>ob\<in>set (playFrom br (startTime e)).
              dge (fst ob) (dmin (dadd (startTime e) (Fin 3)) (duration ed)) \<or> snd ob)"
  shows "\<exists>gifs. renderClips ed br evs = Resolved gifs \<and>
           map fst gifs = map gifName evs \<and>
           map (\<lambda>g. Resolved (snd g)) gifs =
             map (\<lambda>e. outcome (renderToVideo ed br (startTime e)
                        (dmin (dadd (startTime e) (Fin 3)) (duration ed)) Landscape True)) evs"
  using assms(4)
proof (induction evs)
  case Nil
  then show ?case by simp
next
  case (Cons evt rest)
  have fin: "isFinite (startTime evt)" using Cons.prems by simp
  have stop: "\<exists>ob\<in>set (playFrom br (startTime evt)).
      dge (fst ob) (dmin (dadd (startTime evt) (Fin 3)) (duration ed)) \<or> snd ob"
    using Cons.prems by simp
  obtain b where b: "outcome (renderToVideo ed br (startTime evt)
      (dmin (dadd (startTime evt) (Fin 3)) (duration ed)) Landscape True) = Resolved b"
    using renderToVideo_resolves [OF assms(1-3) _ stop fin, of True ed Landscape] by blast
  obtain gifs where g: "renderClips ed br rest = Resolved gifs"
      "map fst gifs = map gifName rest"
      "map (\<lambda>g. Resolved (snd g)) gifs =
             map (\<lambda>e. outcome (renderToVideo ed br (startTime e)
                        (dmin (dadd (startTime e) (Fin 3)) (duration ed)) Landscape True)) rest"
    using Cons.IH Cons.prems by auto
  have "renderClips ed br (evt # rest) = Resolved ((gifName evt, b) # gifs)"
    using b g(1) by (simp add: Let_def)
  then show ?case using b g(2,3) by simp
qed

lemma highlight_clips_run:
  assumes "metadataLoads br" and "mimeTypeSupported br ''video/webm;codecs=vp9''"
    and "playResolves br"
    and "\<forall>e\<in>set (pickEvents (timeline s)). isFinite (startTime e) \<and>
           (\<exists>ob\<in>set (playFrom br (startTime e)).
              dge (fst ob) (dmin (dadd (startTime e) (Fin 3)) (duration s)) \<or> snd ob)"
  shows "\<not> isExporting (handleGenerateMagicGifs br s) \<and>
         map fst (generatedGifs (handleGenerateMagicGifs br s)) =
           map gifName (pickEvents (timeline s)) \<and>
         map (\<lambda>g. Resolved (snd g)) (generatedGifs (handleGenerateMagicGifs br s)) =
           map (\<lambda>e. outcome (renderToVideo s br (startTime e)
                      (dmin (dadd (startTime e) (Fin 3)) (duration s)) Landscape True))
             (pickEvents (timeline s)) \<and>
         map (\<lambda>g. Resolved (snd g)) (generatedGifs (handleGenerateMagicGifs br s)) =
           map (\<lambda>e. outcome (renderToVideo
                      (s\<lparr>subtitles := [], audioBlob := None, isVoiceoverEnabled := False\<rparr>) br
                      (startTime e) (dmin (dadd (startTime e) (Fin 3)) (duration s)) Landscape True))
             (pickEvents (timeline s)) \<and>
         map (\<lambda>g. canvasFrames (snd g)) (generatedGifs (handleGenerateMagicGifs br s)) =
           map (\<lambda>e. map (\<lambda>ob. if has2dContext br
                                then frameOps (s\<lparr>subtitles := []\<rparr>) br Landscape False (fst ob)
                                else [])
                      (composited (dmin (dadd (startTime e) (Fin 3)) (duration s))
                         (playFrom br (startTime e))))
             (pickEvents (timeline s)) \<and>
         (\<forall>g\<in>set (generatedGifs (handleGenerateMagicGifs br s)).
            narrationOffset (snd g) = None \<and> videoBitsPerSecond (snd g) = 2500000)"
proof -
  let ?s0 = "s\<lparr>isExporting := True, showExportMenu := False, isPlaying := False,
                generatedGifs := []\<rparr>"
  let ?evs = "pickEvents (timeline s)"
  let ?end = "\<lambda>e. dmin (dadd (startTime e) (Fin 3)) (duration s)"
  let ?run = "\<lambda>e. renderToVideo s br (startTime e) (?end e) Landscape True"
  have stops: "\<forall>e\<in>set ?evs. isFinite (startTime e) \<and>
           (\<exists>ob\<in>set (playFrom br (startTime e)).
              dge (fst ob) (dmin (dadd (startTime e) (Fin 3)) (duration ?s0)) \<or> snd ob)"
    using assms(4) by simp
  have same0: "renderToVideo ?s0 br a b Landscape True = renderToVideo s br a b Landscape True"
    for a b by (rule renderToVideo_gif_cong) simp
  have same1: "renderToVideo (s\<lparr>subtitles := [], audioBlob := None, isVoiceoverEnabled := False\<rparr>)
                 br a b Landscape True = renderToVideo s br a b Landscape True"
    for a b by (rule renderToVideo_gif_cong) simp
  obtain gifs where g: "renderClips ?s0 br ?evs = Resolved gifs"
      "map fst gifs = map gifName ?evs"
      "map (\<lambda>g. Resolved (snd g)) gifs = map (\<lambda>e. outcome (?run e)) ?evs"
    using renderClips_resolves [OF assms(1-3) stops] unfolding same0 by auto
  have res: "handleGenerateMagicGifs br s = ?s0\<lparr>generatedGifs := gifs, isExporting := False\<rparr>"
    using g(1) by (simp add: handleGenerateMagicGifs_def Let_def)
  have lg: "length gifs = length ?evs" using g(2) by (metis length_map)
  have nth: "outcome (?run (?evs ! i)) = Resolved (snd (gifs ! i))" if "i < length ?evs" for i
  proof -
    have "map (\<lambda>g. Resolved (snd g)) gifs ! i = map (\<lambda>e. outcome (?run e)) ?evs ! i"
      using g(3) by simp
    then show ?thesis using that lg by simp
  qed
  have frames: "map (\<lambda>g. canvasFrames (snd g)) gifs =
           map (\<lambda>e. map (\<lambda>ob. if has2dContext br
                                then frameOps (s\<lparr>subtitles := []\<rparr>) br Landscape False (fst ob)
                                else [])
                      (composited (?end e) (playFrom br (startTime e)))) ?evs"
  proof (rule nth_equalityI)
    show "length (map (\<lambda>g. canvasFrames (snd g)) gifs) =
          length (map (\<lambda>e. map (\<lambda>ob. if has2dContext br
                                then frameOps (s\<lparr>subtitles := []\<rparr>) br Landscape False (fst ob)
                                else [])
                      (composited (?end e) (playFrom br (startTime e)))) ?evs)"
      using lg by simp
  next
    fix i assume "i < length (map (\<lambda>g. canvasFrames (snd g)) gifs)"
    then have i: "i < length ?evs" using lg by simp
    have "canvasFrames (snd (gifs ! i)) =
        map (\<lambda>ob. if has2dContext br then frameOps s br Landscape True (fst ob) else [])
          (composited (?end (?evs ! i)) (playFrom br (startTime (?evs ! i))))"
      using nth [OF i] by (rule renderToVideo_frames)
    then show "map (\<lambda>g. canvasFrames (snd g)) gifs ! i =
          map (\<lambda>e. map (\<lambda>ob. if has2dContext br
                                then frameOps (s\<lparr>subtitles := []\<rparr>) br Landscape False (fst ob)
                                else [])
                      (composited (?end e) (playFrom br (startTime e)))) ?evs ! i"
      using i lg by (simp add: frameOps_gif_no_subtitles [symmetric])
  qed
  have each: "\<forall>g\<in>set gifs. narrationOffset (snd g) = None \<and> videoBitsPerSecond (snd g) = 2500000"
  proof
    fix g assume "g \<in> set gifs"
    then obtain i where i: "i < length gifs" "gifs ! i = g" by (metis in_set_conv_nth)
    then have "outcome (?run (?evs ! i)) = Resolved (snd g)" using nth [of i] lg by simp
    from renderToVideo_blob [OF this]
    show "narrationOffset (snd g) = None \<and> videoBitsPerSecond (snd g) = 2500000" by simp
  qed
  show ?thesis
    unfolding res same1 using g(2,3) frames each by simp
qed

text \<open>
  Claim C5. The events picked for highlight clips are the first three events of the
  timeline whose kind is not zoom, in timeline order (all of them when there are fewer
  than three); when there is none the handler completes with no clip, whatever the
  browser. When the browser lets a render start, every picked start time is finite
  and the video of every render reaches the end of its window or its own end, the
  handler completes with one clip per picked event, in order, named after the event's
  text with every run of white space replaced by a hyphen. The clip of an event is the
  GIF-mode render from \<open>startTime\<close> to \<open>min(startTime + 3, duration)\<close>; it is the same
  clip when the editor has no subtitles, no narration and the voiceover off; its frames
  are those of the video sought to \<open>startTime\<close>, up to the end of the window,
  composited without subtitles; it has no narration track and is recorded at 2.5
  Mbit/s, where a full export is recorded at 5 Mbit/s. A short or empty list changes
  only the number of clips.
\<close>

theorem highlight_clips:
  "(\<exists>rest. filter (\<lambda>t. type_ev t \<noteq> Zoom) (timeline s) = pickEvents (timeline s) @ rest) \<and>
   length (pickEvents (timeline s)) =
     min 3 (length (filter (\<lambda>t. type_ev t \<noteq> Zoom) (timeline s))) \<and>
   (pickEvents (timeline s) = [] \<longrightarrow>
      \<not> isExporting (handleGenerateMagicGifs br s) \<and>
      generatedGifs (handleGenerateMagicGifs br s) = []) \<and>
   (metadataLoads br \<and> mimeTypeSupported br ''video/webm;codecs=vp9'' \<and> playResolves br \<and>
    (\<forall>e\<in>set (pickEvents (timeline s)). isFinite (startTime e) \<and>
       (\<exists>ob\<in>set (playFrom br (startTime e)).
          dge (fst ob) (dmin (dadd (startTime e) (Fin 3)) (duration s)) \<or> snd ob)) \<longrightarrow>
      \<not> isExporting (handleGenerateMagicGifs br s) \<and>
      map fst (generatedGifs (handleGenerateMagicGifs br s)) =
        map gifName (pickEvents (timeline s)) \<and>
      map (\<lambda>g. Resolved (snd g)) (generatedGifs (handleGenerateMagicGifs br s)) =
        map (\<lambda>e. outcome (renderToVideo s br (startTime e)
                   (dmin (dadd (startTime e) (Fin 3)) (duration s)) Landscape True))
          (pickEvents (timeline s)) \<and>
      map (\<lambda>g. Resolved (snd g)) (generatedGifs (handleGenerateMagicGifs br s)) =
        map (\<lambda>e. outcome (renderToVideo
                   (s\<lparr>subtitles := [], audioBlob := None, isVoiceoverEnabled := False\<rparr>) br
                   (startTime e) (dmin (dadd (startTime e) (Fin 3)) (duration s)) Landscape True))
          (pickEvents (timeline s)) \<and>
      map (\<lambda>g. canvasFrames (snd g)) (generatedGifs (handleGenerateMagicGifs br s)) =
        map (\<lambda>e. map (\<lambda>ob. if has2dContext br
                             then frameOps (s\<lparr>subtitles := []\<rparr>) br Landscape False (fst ob)
                             else [])
                   (composited (dmin (dadd (startTime e) (Fin 3)) (duration s))
                      (playFrom br (startTime e))))
          (pickEvents (timeline s)) \<and>
      (\<forall>g\<in>set (generatedGifs (handleGenerateMagicGifs br s)).
         narrationOffset (snd g) = None \<and> videoBitsPerSecond (snd g) = 2500000)) \<and>
   (\<forall>b. outcome (renderToVideo s br startT endT format False) = Resolved b \<longrightarrow>
      videoBitsPerSecond b = 5000000)"
proof -
  have pre: "\<exists>rest. filter (\<lambda>t. type_ev t \<noteq> Zoom) (timeline s) = pickEvents (timeline s) @ rest"
    unfolding pickEvents_def by (metis append_take_drop_id)
  have len: "length (pickEvents (timeline s)) =
      min 3 (length (filter (\<lambda>t. type_ev t \<noteq> Zoom) (timeline s)))"
    unfolding pickEvents_def by simp
  have short: "pickEvents (timeline s) = [] \<longrightarrow>
      \<not> isExporting (handleGenerateMagicGifs br s) \<and>
      generatedGifs (handleGenerateMagicGifs br s) = []"
    by (simp add: handleGenerateMagicGifs_def Let_def)
  have full: "\<forall>b. outcome (renderToVideo s br startT endT format False) = Resolved b \<longrightarrow>
      videoBitsPerSecond b = 5000000"
    using renderToVideo_blob [of s br startT endT format False] by simp
  have run: "metadataLoads br \<and> mimeTypeSupported br ''video/webm;codecs=vp9'' \<and> playResolves br \<and>
    (\<forall>e\<in>set (pickEvents (timeline s)). isFinite (startTime e) \<and>
       (\<exists>ob\<in>set (playFrom br (startTime e)).
          dge (fst ob) (dmin (dadd (startTime e) (Fin 3)) (duration s)) \<or> snd ob)) \<longrightarrow>
      \<not> isExporting (handleGenerateMagicGifs br s) \<and>
      map fst (generatedGifs (handleGenerateMagicGifs br s)) =
        map gifName (pickEvents (timeline s)) \<and>
      map (\<lambda>g. Resolved (snd g)) (generatedGifs (handleGenerateMagicGifs br s)) =
        map (\<lambda>e. outcome (renderToVideo s br (startTime e)
                   (dmin (dadd (startTime e) (Fin 3)) (duration s)) Landscape True))
          (pickEvents (timeline s)) \<and>
      map (\<lambda>g. Resolved (snd g)) (generatedGifs (handleGenerateMagicGifs br s)) =
        map (\<lambda>e. outcome (renderToVideo
                   (s\<lparr>subtitles := [], audioBlob := None, isVoiceoverEnabled := False\<rparr>) br
                   (startTime e) (dmin (dadd (startTime e) (Fin 3)) (duration s)) Landscape True))
          (pickEvents (timeline s)) \<and>
      map (\<lambda>g. canvasFrames (snd g)) (generatedGifs (handleGenerateMagicGifs br s)) =
        map (\<lambda>e. map (\<lambda>ob. if has2dContext br
                             then frameOps (s\<lparr>subtitles := []\<rparr>) br Landscape False (fst ob)
                             else [])
                   (composited (dmin (dadd (startTime e) (Fin 3)) (duration s))
                      (playFrom br (startTime e))))
          (pickEvents (timeline s)) \<and>
      (\<forall>g\<in>set (generatedGifs (handleGenerateMagicGifs br s)).
         narrationOffset (snd g) = None \<and> videoBitsPerSecond (snd g) = 2500000)"
  proof
    assume h: "metadataLoads br \<and> mimeTypeSupported br ''video/webm;codecs=vp9'' \<and> playResolves br \<and>
    (\<forall>e\<in>set (pickEvents (timeline s)). isFinite (startTime e) \<and>
       (\<exists>ob\<in>set (playFrom br (startTime e)).
          dge (fst ob) (dmin (dadd (startTime e) (Fin 3)) (duration s)) \<or> snd ob))"
    from h have a: "metadataLoads br" and b: "mimeTypeSupported br ''video/webm;codecs=vp9''"
      and c: "playResolves br" by blast+
    from h have d: "\<forall>e\<in>set (pickEvents (timeline s)). isFinite (startTime e) \<and>
       (\<exists>ob\<in>set (playFrom br (startTime e)).
          dge (fst ob) (dmin (dadd (startTime e) (Fin 3)) (duration s)) \<or> snd ob)" by blast
    show "\<not> isExporting (handleGenerateMagicGifs br s) \<and>
      map fst (generatedGifs (handleGenerateMagicGifs br s)) =
        map gifName (pickEvents (timeline s)) \<and>
      map (\<lambda>g. Resolved (snd g)) (generatedGifs (handleGenerateMagicGifs br s)) =
        map (\<lambda>e. outcome (renderToVideo s br (startTime e)
                   (dmin (dadd (startTime e) (Fin 3)) (duration s)) Landscape True))
          (pickEvents (timeline s)) \<and>
      map (\<lambda>g. Resolved (snd g)) (generatedGifs (handleGenerateMagicGifs br s)) =
        map (\<lambda>e. outcome (renderToVideo
                   (s\<lparr>subtitles := [], audioBlob := None, isVoiceoverEnabled := False\<rparr>) br
                   (startTime e) (dmin (dadd (startTime e) (Fin 3)) (duration s)) Landscape True))
          (pickEvents (timeline s)) \<and>
      map (\<lambda>g. canvasFrames (snd g)) (generatedGifs (handleGenerateMagicGifs br s)) =
        map (\<lambda>e. map (\<lambda>ob. if has2dContext br
                             then frameOps (s\<lparr>subtitles := []\<rparr>) br Landscape False (fst ob)
                             else [])
                   (composited (dmin (dadd (startTime e) (Fin 3)) (duration s))
                      (playFrom br (startTime e))))
          (pickEvents (timeline s)) \<and>
      (\<forall>g\<in>set (generatedGifs (handleGenerateMagicGifs br s)).
         narrationOffset (snd g) = None \<and> videoBitsPerSecond (snd g) = 2500000)"
      by (rule highlight_clips_run [OF a b c d])
  qed
  from pre len short run full show ?thesis by (intro conjI)
qed

text \<open>
  The example timeline gives three clips, for the two captions and the highlight
  listed after the zoom, over the windows ending at 3, 4 and 7 seconds, of 3, 2 and 2
  frames; the text with a no-break space and a space gives one hyphen. A timeline
  that holds only the zoom gives no clip, also in a browser that cannot record.
\<close>

theorem highlight_clips_witness:
  "pickEvents (timeline exampleEditor) =
     [exampleTimeline ! 1, exampleTimeline ! 2, exampleTimeline ! 3] \<and>
   \<not> isExporting (handleGenerateMagicGifs exampleBrowser exampleEditor) \<and>
   map fst (generatedGifs (handleGenerateMagicGifs exampleBrowser exampleEditor)) =
     [codeUnits ''GIF-Hi-there.webm'', codeUnits ''GIF-Sign-in.webm'',
      codeUnits ''GIF-Save-now.webm''] \<and>
   map (\<lambda>e. dmin (dadd (startTime e) (Fin 3)) (duration exampleEditor))
     (pickEvents (timeline exampleEditor)) = [Fin 3, Fin 4, Fin 7] \<and>
   map (\<lambda>g. length (canvasFrames (snd g)))
     (generatedGifs (handleGenerateMagicGifs exampleBrowser exampleEditor)) = [3, 2, 2] \<and>
   map (\<lambda>g. hd (canvasFrames (snd g)))
     (generatedGifs (handleGenerateMagicGifs exampleBrowser exampleEditor)) =
     [frameOps exampleEditor exampleBrowser Landscape True (Fin 0),
      frameOps exampleEditor exampleBrowser Landscape True (Fin 1),
      frameOps exampleEditor exampleBrowser Landscape True (Fin 5)] \<and>
   map (\<lambda>g. narrationOffset (snd g))
     (generatedGifs (handleGenerateMagicGifs exampleBrowser exampleEditor)) = [None, None, None] \<and>
   map (\<lambda>g. videoBitsPerSecond (snd g))
     (generatedGifs (handleGenerateMagicGifs exampleBrowser exampleEditor)) =
     [2500000, 2500000, 2500000] \<and>
   pickEvents (timeline zoomOnlyEditor) = [] \<and>
   \<not> isExporting (handleGenerateMagicGifs webmOnlyBrowser zoomOnlyEditor) \<and>
   generatedGifs (handleGenerateMagicGifs webmOnlyBrowser zoomOnlyEditor) = []"
proof -
  let ?G = "generatedGifs (handleGenerateMagicGifs exampleBrowser exampleEditor)"
  have pk: "pickEvents (timeline exampleEditor) =
      [exampleTimeline ! 1, exampleTimeline ! 2, exampleTimeline ! 3]"
    by (simp add: pickEvents_def exampleEditor_def exampleTimeline_def)
  have stops: "\<forall>e\<in>set (pickEvents (timeline exampleEditor)). isFinite (startTime e) \<and>
      (\<exists>ob\<in>set (playFrom exampleBrowser (startTime e)).
         dge (fst ob) (dmin (dadd (startTime e) (Fin 3)) (duration exampleEditor)) \<or> snd ob)"
    unfolding pk
    by (simp add: exampleTimeline_def exampleEditor_def exampleBrowser_def examplePlayback_def
        isFinite_def dmin_def dge_def double_eval)
  note fact = highlight_clips [where s = exampleEditor and br = exampleBrowser
      and startT = "Fin 0" and endT = "Fin 7" and format = Landscape]
  note fact = fact exampleBrowser_starts stops
  note short = highlight_clips [where s = zoomOnlyEditor and br = webmOnlyBrowser
      and startT = "Fin 0" and endT = "Fin 7" and format = Landscape]
  have pk0: "pickEvents (timeline zoomOnlyEditor) = []"
    by (simp add: pickEvents_def zoomOnlyEditor_def exampleTimeline_def)
  from short pk0 have none: "\<not> isExporting (handleGenerateMagicGifs webmOnlyBrowser zoomOnlyEditor)"
    "generatedGifs (handleGenerateMagicGifs webmOnlyBrowser zoomOnlyEditor) = []"
    by blast+
  from fact have fin: "\<not> isExporting (handleGenerateMagicGifs exampleBrowser exampleEditor)"
    by blast
  from fact have nm: "map fst ?G = map gifName (pickEvents (timeline exampleEditor))"
    by blast
  from fact have fr: "map (\<lambda>g. canvasFrames (snd g)) ?G =
      map (\<lambda>e. map (\<lambda>ob. if has2dContext exampleBrowser
                           then frameOps (exampleEditor\<lparr>subtitles := []\<rparr>) exampleBrowser
                                  Landscape False (fst ob)
                           else [])
                 (composited (dmin (dadd (startTime e) (Fin 3)) (duration exampleEditor))
                    (playFrom exampleBrowser (startTime e))))
        (pickEvents (timeline exampleEditor))"
    by blast
  from fact have each: "\<forall>g\<in>set ?G. narrationOffset (snd g) = None \<and>
      videoBitsPerSecond (snd g) = 2500000"
    by blast
  have names: "map gifName (pickEvents (timeline exampleEditor)) =
      [codeUnits ''GIF-Hi-there.webm'', codeUnits ''GIF-Sign-in.webm'',
       codeUnits ''GIF-Save-now.webm'']"
    unfolding pk by (simp add: gifName_def exampleTimeline_def isWhitespace_def codeUnits_def)
  have win: "map (\<lambda>e. dmin (dadd (startTime e) (Fin 3)) (duration exampleEditor))
      (pickEvents (timeline exampleEditor)) = [Fin 3, Fin 4, Fin 7]"
    unfolding pk by (simp add: exampleTimeline_def exampleEditor_def dmin_def double_eval)
  have comp: "map (\<lambda>e. composited (dmin (dadd (startTime e) (Fin 3)) (duration exampleEditor))
                    (playFrom exampleBrowser (startTime e)))
        (pickEvents (timeline exampleEditor)) =
      [[(Fin 0, False), (Fin 1, False), (Fin 2, False)],
       [(Fin 1, False), (Fin (5 / 2), False)],
       [(Fin 5, False), (Fin 6, False)]]"
    unfolding pk
    by (simp add: composited_def exampleTimeline_def exampleEditor_def exampleBrowser_def
        examplePlayback_def dmin_def dge_def double_eval)
  have ctx: "has2dContext exampleBrowser" by (simp add: exampleBrowser_def)
  have fr': "map (\<lambda>g. canvasFrames (snd g)) ?G =
      map (map (\<lambda>ob. frameOps exampleEditor exampleBrowser Landscape True (fst ob)))
        (map (\<lambda>e. composited (dmin (dadd (startTime e) (Fin 3)) (duration exampleEditor))
                    (playFrom exampleBrowser (startTime e)))
           (pickEvents (timeline exampleEditor)))"
    unfolding fr using ctx by (simp add: frameOps_gif_no_subtitles [symmetric])
  have frames: "map (\<lambda>g. canvasFrames (snd g)) ?G =
      [[frameOps exampleEditor exampleBrowser Landscape True (Fin 0),
        frameOps exampleEditor exampleBrowser Landscape True (Fin 1),
        frameOps exampleEditor exampleBrowser Landscape True (Fin 2)],
       [frameOps exampleEditor exampleBrowser Landscape True (Fin 1),
        frameOps exampleEditor exampleBrowser Landscape True (Fin (5 / 2))],
       [frameOps exampleEditor exampleBrowser Landscape True (Fin 5),
        frameOps exampleEditor exampleBrowser Landscape True (Fin 6)]]"
    unfolding fr' comp by simp
  have "map (\<lambda>g. length (canvasFrames (snd g))) ?G = map length (map (\<lambda>g. canvasFrames (snd g)) ?G)"
    by (simp add: comp_def)
  then have lens: "map (\<lambda>g. length (canvasFrames (snd g))) ?G = [3, 2, 2]"
    unfolding frames by simp
  have "map (\<lambda>g. hd (canvasFrames (snd g))) ?G = map hd (map (\<lambda>g. canvasFrames (snd g)) ?G)"
    by (simp add: comp_def)
  then have hds: "map (\<lambda>g. hd (canvasFrames (snd g))) ?G =
     [frameOps exampleEditor exampleBrowser Landscape True (Fin 0),
      frameOps exampleEditor exampleBrowser Landscape True (Fin 1),
      frameOps exampleEditor exampleBrowser Landscape True (Fin 5)]"
    unfolding frames by simp
  have l3: "length ?G = 3" using nm [unfolded names] by (metis length_map length_Cons list.size(3) numeral_3_eq_3)
  have narr: "map (\<lambda>g. narrationOffset (snd g)) ?G = map (\<lambda>g. None) ?G"
    using each by (intro map_cong) simp_all
  have bits: "map (\<lambda>g. videoBitsPerSecond (snd g)) ?G = map (\<lambda>g. 2500000) ?G"
    using each by (intro map_cong) simp_all
  have rep: "map (\<lambda>g. c) ?G = [c, c, c]" for c :: 'c
    using l3 by (simp add: map_replicate_const numeral_3_eq_3)
  from pk fin nm [unfolded names] win lens hds narr [unfolded rep] bits [unfolded rep] pk0 none
  show ?thesis by (intro conjI)
qed


section \<open>Failures of the export\<close>

text \<open>
  Claim C8 does not hold of the export. The screen recorder of the application picks
  its MIME type from a preference list and falls back to WebM, and so does the
  recorder of the simulation; the export constructs its recorder with the one type \<open>video/webm;codecs=vp9\<close>. In a browser that records
  WebM but not VP9 both of them record \<open>video/webm\<close>, while the constructor of the
  export throws inside the promise executor: no render of any kind resolves, the
  promise never settles, no file is offered, the editor stays in its exporting state,
  and the highlight clips stop the same way.
\<close>

theorem export_encoder_no_fallback:
  "selectedType (mimeTypeSupported webmOnlyBrowser) = ''video/webm'' \<and>
   spec_selectEncoder mimeTypes (mimeTypeSupported webmOnlyBrowser) = Some ''video/webm'' \<and>
   simulationMimeType (mimeTypeSupported webmOnlyBrowser) = ''video/webm'' \<and>
   outcome (renderToVideo exampleEditor webmOnlyBrowser (Fin 0) (Fin 7) Landscape False) =
     Unsettled RecorderNotSupported \<and>
   (\<forall>ed startT endT format isGifMode b.
      outcome (renderToVideo ed webmOnlyBrowser startT endT format isGifMode) \<noteq> Resolved b) \<and>
   \<not> settled (handleExportVideo webmOnlyBrowser Landscape exampleEditor) \<and>
   download (handleExportVideo webmOnlyBrowser Landscape exampleEditor) = None \<and>
   isExporting (editor (handleExportVideo webmOnlyBrowser Landscape exampleEditor)) \<and>
   isExporting (handleGenerateMagicGifs webmOnlyBrowser exampleEditor) \<and>
   generatedGifs (handleGenerateMagicGifs webmOnlyBrowser exampleEditor) = []"
proof -
  have sel: "selectedType (mimeTypeSupported webmOnlyBrowser) = ''video/webm''"
    by (simp add: selectedType_def mimeTypes_def webmOnlyBrowser_def exampleBrowser_def)
  have spec: "spec_selectEncoder mimeTypes (mimeTypeSupported webmOnlyBrowser) = Some ''video/webm''"
    by (simp add: spec_selectEncoder_def mimeTypes_def webmOnlyBrowser_def exampleBrowser_def)
  have sim: "simulationMimeType (mimeTypeSupported webmOnlyBrowser) = ''video/webm''"
    by (simp add: simulationMimeType_def webmOnlyBrowser_def exampleBrowser_def)
  have never: "\<forall>ed startT endT format isGifMode b.
      outcome (renderToVideo ed webmOnlyBrowser startT endT format isGifMode) \<noteq> Resolved b"
    by (simp add: renderToVideo_def webmOnlyBrowser_def exampleBrowser_def Let_def)
  have run: "outcome (renderToVideo ed webmOnlyBrowser (Fin a) endT Landscape g) =
      Unsettled RecorderNotSupported"
    if "audioBlob ed = Some \<lparr>decodable = True\<rparr>" and "0 \<le> a" for ed a endT g
    using that
    by (simp add: renderToVideo_def webmOnlyBrowser_def exampleBrowser_def isFinite_def dge_def
        Let_def)
  have r1: "outcome (renderToVideo exampleEditor webmOnlyBrowser (Fin 0) (Fin 7) Landscape False) =
      Unsettled RecorderNotSupported"
    by (rule run) (simp_all add: exampleEditor_def)
  let ?s0 = "exampleEditor\<lparr>isExporting := True, showExportMenu := False, isPlaying := False,
      aud := map_option (\<lambda>a. a\<lparr>aud_paused := True\<rparr>) (aud exampleEditor)\<rparr>"
  have r2: "outcome (renderToVideo ?s0 webmOnlyBrowser (Fin 0)
      (if truthy (duration exampleEditor) then duration exampleEditor else Fin 30)
      Landscape False) = Unsettled RecorderNotSupported"
    by (rule run) (simp_all add: exampleEditor_def)
  have gifs: "handleGenerateMagicGifs webmOnlyBrowser exampleEditor =
      exampleEditor\<lparr>isExporting := True, showExportMenu := False, isPlaying := False,
        generatedGifs := []\<rparr>"
    by (simp add: handleGenerateMagicGifs_def pickEvents_def exampleEditor_def exampleTimeline_def
        renderToVideo_def webmOnlyBrowser_def exampleBrowser_def isFinite_def Let_def)
  from sel spec sim r1 never handleExportVideo_unsettled [OF r2] show ?thesis
    unfolding gifs by simp
qed

text \<open>
  Claim C9 does not hold of the export. When the narration does not decode,
  \<open>decodeAudioData\<close> rejects inside the promise executor, which has no handler: the
  promise never settles, nothing is reported, no file is offered and the editor stays
  in its exporting state. The same export without a narration blob completes, with a
  file that has no narration track.
\<close>

theorem export_audio_decode_failure:
  "outcome (renderToVideo undecodableEditor exampleBrowser (Fin 0) (Fin 7) Landscape False) =
     Unsettled AudioDecodeRejected \<and>
   progressUpdates (renderToVideo undecodableEditor exampleBrowser (Fin 0) (Fin 7) Landscape False) =
     [] \<and>
   \<not> settled (handleExportVideo exampleBrowser Landscape undecodableEditor) \<and>
   download (handleExportVideo exampleBrowser Landscape undecodableEditor) = None \<and>
   isExporting (editor (handleExportVideo exampleBrowser Landscape undecodableEditor)) \<and>
   settled (handleExportVideo exampleBrowser Landscape (undecodableEditor\<lparr>audioBlob := None\<rparr>)) \<and>
   map_option (\<lambda>d. narrationOffset (snd d))
     (download (handleExportVideo exampleBrowser Landscape (undecodableEditor\<lparr>audioBlob := None\<rparr>))) =
     Some None"
proof -
  have run: "renderToVideo ed exampleBrowser startT endT format False =
      \<lparr>outcome = Unsettled AudioDecodeRejected, progressUpdates = []\<rparr>"
    if "audioBlob ed = Some \<lparr>decodable = False\<rparr>" and "isVoiceoverEnabled ed"
    for ed startT endT format
    using that by (simp add: renderToVideo_def exampleBrowser_def Let_def)
  have r1: "renderToVideo undecodableEditor exampleBrowser (Fin 0) (Fin 7) Landscape False =
      \<lparr>outcome = Unsettled AudioDecodeRejected, progressUpdates = []\<rparr>"
    by (rule run) (simp_all add: undecodableEditor_def exampleEditor_def)
  let ?s0 = "undecodableEditor\<lparr>isExporting := True, showExportMenu := False, isPlaying := False,
      aud := map_option (\<lambda>a. a\<lparr>aud_paused := True\<rparr>) (aud undecodableEditor)\<rparr>"
  have "renderToVideo ?s0 exampleBrowser (Fin 0)
      (if truthy (duration undecodableEditor) then duration undecodableEditor else Fin 30)
      Landscape False = \<lparr>outcome = Unsettled AudioDecodeRejected, progressUpdates = []\<rparr>"
    by (rule run) (simp_all add: undecodableEditor_def exampleEditor_def)
  then have r2: "outcome (renderToVideo ?s0 exampleBrowser (Fin 0)
      (if truthy (duration undecodableEditor) then duration undecodableEditor else Fin 30)
      Landscape False) = Unsettled AudioDecodeRejected"
    by simp
  let ?m = "undecodableEditor\<lparr>audioBlob := None\<rparr>"
  let ?mx = "?m\<lparr>isExporting := True, showExportMenu := False, isPlaying := False,
      aud := map_option (\<lambda>a. a\<lparr>aud_paused := True\<rparr>) (aud ?m)\<rparr>"
  have dur: "(if truthy (duration ?m) then duration ?m else Fin 30) = Fin 7"
    by (simp add: undecodableEditor_def exampleEditor_def truthy_def)
  have stop: "\<exists>ob\<in>set (playFrom exampleBrowser (Fin 0)). dge (fst ob) (Fin 7) \<or> snd ob"
    by (simp add: exampleBrowser_def examplePlayback_def dge_def)
  have narr: "False \<or> \<not> isVoiceoverEnabled ?mx \<or> audioBlob ?mx = None \<or>
      (\<exists>a. audioBlob ?mx = Some a \<and> decodable a) \<and> dge (Fin 0) (Fin 0)"
    by simp
  have fin0: "isFinite (Fin 0)" by (simp add: isFinite_def)
  obtain b where b: "outcome (renderToVideo ?mx exampleBrowser (Fin 0)
      (if truthy (duration ?m) then duration ?m else Fin 30) Landscape False) = Resolved b"
    unfolding dur
    using renderToVideo_resolves [OF exampleBrowser_starts narr stop fin0] by blast
  have silent: "narrationOffset b = None"
    using b by (auto simp add: renderToVideo_def Let_def split: prod.splits if_splits)
  have st: "settled (handleExportVideo exampleBrowser Landscape ?m)"
    using b by (rule handleExportVideo_settled)
  have dl: "map_option (\<lambda>d. narrationOffset (snd d))
     (download (handleExportVideo exampleBrowser Landscape ?m)) = Some None"
    using handleExportVideo_settled(3) [OF b] silent by simp
  from r1 handleExportVideo_unsettled [OF r2] st dl show ?thesis by simp
qed

end
